theory Spec2Isabelle
  imports Complex_Main "HOL-Library.Word" "HOL-Library.Log_Nat"
begin

section \<open>Data model (src/src/types.ts)\<close>

text \<open>
  The TypeScript interfaces become records. Optional fields (\<^verbatim>\<open>price?: number\<close>) are
  \<open>option\<close>s, string unions are datatypes. JavaScript strings are lists of code units,
  \<^verbatim>\<open>number\<close>s that count things are \<open>nat\<close> or \<open>int\<close>, prices are \<open>rat\<close>.
  A token count is an integer (the callers pass what \<open>estimateTokens\<close> returns).
  Field names that occur in several interfaces carry a short prefix in all but
  \<open>LicenseInfo\<close>, since HOL record selectors live in one name space.
\<close>

datatype LicenseStage = Infer | Embed | Tune | Train

datatype Distribution = Private | Public

datatype license_action = Allow | Deny | Unknown

datatype PaymentMethod = AccountBalance | X402

record LicenseInfo =
  url :: string
  license_found :: bool
  action :: license_action
  distribution :: "Distribution option"
  price :: "rat option"
  payto :: "string option"
  license_version_id :: "int option"
  license_sig :: "string option"
  license_type :: "string option"
  error :: "string option"

record UsageLogEntry =
  log_url :: string
  log_tokens :: int
  log_license_version_id :: "int option"
  log_license_sig :: "string option"
  log_stage :: LicenseStage
  log_distribution :: Distribution
  log_timestamp :: nat

record LedgerAcquireResponse =
  licensed_url :: string
  acq_license_version_id :: int
  acq_license_sig :: string
  acq_expires_at :: string
  acq_cost :: rat
  acq_currency :: string
  acq_stage :: LicenseStage
  acq_distribution :: Distribution
  acq_estimated_tokens :: int
  acq_license_status :: string
  acq_rate_per_1k_tokens :: rat

record x402_challenge =
  x_price :: "string option"
  x_payto :: "string option"
  x_stage :: "string option"
  x_distribution :: "string option"
  x_facilitator_url :: "string option"

record acquire_meta =
  m_licensed_url :: string
  m_cost :: rat
  m_currency :: string
  m_expires_at :: string
  m_license_version_id :: int
  m_license_sig :: string

record LicensedFetchResult =
  requested_url :: string
  final_url :: string
  status :: nat
  content_type :: "string option"
  content_text :: "string option"
  payment_attempted :: bool
  payment_required :: bool
  x402 :: "x402_challenge option"
  acquire :: "acquire_meta option"
  fetch_error :: "string option"

text \<open>
  \<open>total_tokens\<close> is the one number the code adds a caller's argument to
  (\<^verbatim>\<open>total_tokens += tokens\<close>), so it is kept with the precision the code has: a double
  holding an integer, or an infinity once a sum has overflowed.
\<close>

datatype js_number = Finite int | PosInfinity | NegInfinity

record LicenseTrackingSummary =
  total_urls :: nat
  licensed_content :: nat
  unlicensed_content :: nat
  denied_content :: nat
  total_tokens :: js_number
  tracking_enabled :: bool
  errors :: nat

record LicenseServiceConfig =
  apiUrl :: string
  apiKey :: "string option"
  licenseCheckTimeout :: nat
  licenseAcquireTimeout :: nat
  usageLogTimeout :: nat
  enableTracking :: bool
  enableCache :: bool
  cacheTTL :: int

section \<open>The runtime around the code\<close>

text \<open>
  A thrown JavaScript \<^verbatim>\<open>Error\<close> is a value with a name and a message.
  \<open>error_message\<close> is \<^verbatim>\<open>error.message\<close>; \<open>error_text\<close> is the expression
  \<^verbatim>\<open>error?.message || String(error)\<close> of the fetcher: an empty message is falsy, and
  \<^verbatim>\<open>String\<close> of an Error with an empty message is its name.
\<close>

datatype js_error = Error (error_name: string) (error_message: string)

definition error_text :: "js_error \<Rightarrow> string" where
  "error_text e = (if error_message e = [] then error_name e else error_message e)"

text \<open>
  One element of the JSON array the ledger answers a lookup with. The code reads it
  as \<^verbatim>\<open>any\<close>: reading a property of \<^verbatim>\<open>null\<close> throws a TypeError, reading a
  property that is absent (or reading one of a number or a string) gives
  \<^verbatim>\<open>undefined\<close>. So an element is \<open>JNull\<close> or an object whose fields may be missing.
  \<open>rec_license_type\<close> and \<open>opt_in_status\<close> are \<open>None\<close> when the property is absent
  or is not a string: the code only compares them with string literals.
\<close>

record ledger_record =
  rec_license_type :: "string option"
  opt_in_status :: "string option"
  rate_per_token :: "rat option"
  wallet_id :: "string option"
  rec_id :: "int option"

datatype json_item = JNull | JObject ledger_record

text \<open>\<^verbatim>\<open>response.data\<close> of a lookup: a JSON array, or any other JSON value.\<close>

datatype ledger_data = DArray "json_item list" | DValue json_item

text \<open>What \<^verbatim>\<open>fetch\<close> resolves with. Header names are looked up in lower case, as the
  code writes them; \<open>body\<close> is \<open>None\<close> when \<^verbatim>\<open>text()\<close> rejects.\<close>

record response =
  resp_url :: string
  resp_status :: nat
  headers :: "string \<rightharpoonup> string"
  body :: "string option"

record acquire_body =
  b_url :: string
  b_estimated_tokens :: int
  b_stage :: LicenseStage
  b_distribution :: Distribution
  b_payment_method :: PaymentMethod
  b_payment_proof :: "string option"
  b_payment_amount :: "rat option"

text \<open>
  Every network request the process issues is appended to a log, so that "exactly one
  request" and "no network activity" are statements about the log.
\<close>

datatype request =
    LedgerGet string
  | LedgerAcquire acquire_body
  | LedgerUsageLog UsageLogEntry
  | ContentFetch string

text \<open>
  The environment answers a request after some milliseconds, with a payload or with the
  error the client library rejects with (timeout, transport error, non-success status).
  Every request is answered: the timeouts of the configuration and the deadline of the
  fetcher turn a request that takes too long into a rejection. The answer may depend on
  the request and on how many requests were issued before, so that the same URL can be
  answered differently each time.
\<close>

type_synonym 'a reply = "nat \<times> (js_error + 'a)"

record world =
  ledger_get :: "nat \<Rightarrow> string \<Rightarrow> ledger_data reply"
  ledger_acquire :: "nat \<Rightarrow> acquire_body \<Rightarrow> LedgerAcquireResponse reply"
  ledger_log :: "nat \<Rightarrow> UsageLogEntry \<Rightarrow> unit reply"
  http_get :: "nat \<Rightarrow> string \<Rightarrow> response reply"

text \<open>\<open>clock\<close> is \<^verbatim>\<open>Date.now()\<close> in milliseconds, \<open>sent\<close> the request log, oldest first.\<close>

record runtime =
  clock :: nat
  sent :: "request list"

section \<open>LicenseService (services/license-service.ts)\<close>

text \<open>
  The fields of the class. \<open>tokenEncoder\<close> is \<open>None\<close> when the constructor could not
  load the encoder; otherwise its \<^verbatim>\<open>encode\<close> gives the token array or throws.
\<close>

record cache_entry =
  license :: LicenseInfo
  expires :: int

record LicenseService =
  config :: LicenseServiceConfig
  tokenEncoder :: "(string \<Rightarrow> js_error + 32 word list) option"
  licenseCache :: "string \<rightharpoonup> cache_entry"
  sessionSummary :: LicenseTrackingSummary

text \<open>The state the constructor leaves: empty cache, zeroed counters.\<close>

definition new_summary :: "LicenseServiceConfig \<Rightarrow> LicenseTrackingSummary" where
  "new_summary c =
     \<lparr>total_urls = 0, licensed_content = 0, unlicensed_content = 0, denied_content = 0,
      total_tokens = Finite 0, tracking_enabled = enableTracking c, errors = 0\<rparr>"

definition new_LicenseService ::
  "LicenseServiceConfig \<Rightarrow> (string \<Rightarrow> js_error + 32 word list) option \<Rightarrow> LicenseService" where
  "new_LicenseService c enc =
     \<lparr>config = c, tokenEncoder = enc, licenseCache = Map.empty, sessionSummary = new_summary c\<rparr>"

subsection \<open>estimateTokens\<close>

text \<open>
  \<^verbatim>\<open>if (!content) return 0\<close>; then the encoder, inside a \<^verbatim>\<open>try\<close> whose \<^verbatim>\<open>catch\<close> only
  logs; then \<^verbatim>\<open>Math.ceil(content.length / 4)\<close>. The division is by a power of two, so
  it is exact in JavaScript's numbers and the rational quotient is the value the code
  computes.
\<close>

definition estimateTokens :: "LicenseService \<Rightarrow> string \<Rightarrow> int" where
  "estimateTokens s content =
     (if content = [] then 0
      else case tokenEncoder s of
             None \<Rightarrow> \<lceil>(of_nat (length content) :: rat) / 4\<rceil>
           | Some encode \<Rightarrow>
               (case encode content of
                  Inr tokens \<Rightarrow> int (length tokens)
                | Inl e \<Rightarrow> \<lceil>(of_nat (length content) :: rat) / 4\<rceil>))"

subsection \<open>checkLicense\<close>

text \<open>\<^verbatim>\<open>!this.config.apiKey\<close>: the key is absent or the empty string.\<close>

definition key_missing :: "string option \<Rightarrow> bool" where
  "key_missing k = (k = None \<or> k = Some [])"

text \<open>The two degraded results the function builds.\<close>

definition unknown_license :: "string \<Rightarrow> LicenseInfo" where
  "unknown_license u =
     \<lparr>url = u, license_found = False, action = Unknown, distribution = None, price = None,
      payto = None, license_version_id = None, license_sig = None, license_type = None,
      error = None\<rparr>"

definition failed_license :: "string \<Rightarrow> js_error \<Rightarrow> LicenseInfo" where
  "failed_license u e = (unknown_license u)\<lparr>error := Some (error_message e)\<rparr>"

text \<open>\<^verbatim>\<open>Array.isArray(response.data) ? response.data : [response.data]\<close>\<close>

definition licenseArray_of :: "ledger_data \<Rightarrow> json_item list" where
  "licenseArray_of d = (case d of DArray xs \<Rightarrow> xs | DValue v \<Rightarrow> [v])"

text \<open>The TypeError of reading a property of \<^verbatim>\<open>null\<close> or \<^verbatim>\<open>undefined\<close>.\<close>

definition property_of_null :: "string \<Rightarrow> js_error" where
  "property_of_null prop =
     Error ''TypeError''
       (''Cannot read properties of null (reading '' @ [CHR 0x27] @ prop @ [CHR 0x27] @ '')'')"

definition property_of_undefined :: "string \<Rightarrow> js_error" where
  "property_of_undefined prop =
     Error ''TypeError''
       (''Cannot read properties of undefined (reading '' @ [CHR 0x27] @ prop @ [CHR 0x27] @ '')'')"

text \<open>
  \<^verbatim>\<open>licenseArray.find((l: any) => l.license_type === 'ai-license')\<close>: the callback runs
  on the elements in order and stops at the first match; it throws on \<^verbatim>\<open>null\<close>.
\<close>

fun find_ai_license :: "json_item list \<Rightarrow> js_error + ledger_record option" where
  "find_ai_license [] = Inr None"
| "find_ai_license (JNull # xs) = Inl (property_of_null ''license_type'')"
| "find_ai_license (JObject r # xs) =
     (if rec_license_type r = Some ''ai-license'' then Inr (Some r) else find_ai_license xs)"

text \<open>
  \<^verbatim>\<open>licenseArray.find(...) || licenseArray[0]\<close>, followed by the first property read of
  \<^verbatim>\<open>licenseData\<close>, which throws when the first element is \<^verbatim>\<open>null\<close> (or missing).
\<close>

definition select_license :: "json_item list \<Rightarrow> js_error + ledger_record" where
  "select_license arr =
     (case find_ai_license arr of
        Inl e \<Rightarrow> Inl e
      | Inr (Some r) \<Rightarrow> Inr r
      | Inr None \<Rightarrow>
          (case arr of
             [] \<Rightarrow> Inl (property_of_undefined ''opt_in_status'')
           | JNull # _ \<Rightarrow> Inl (property_of_null ''opt_in_status'')
           | JObject r # _ \<Rightarrow> Inr r))"

definition license_of_record :: "string \<Rightarrow> ledger_record \<Rightarrow> LicenseInfo" where
  "license_of_record u licenseData =
     (let optStatus = opt_in_status licenseData;
          found = (optStatus = Some ''opt-in'' \<or> optStatus = Some ''opt-out'');
          act = (if optStatus = Some ''opt-in'' then Allow
                 else if optStatus = Some ''opt-out'' then Deny else Unknown)
      in \<lparr>url = u, license_found = found, action = act, distribution = None,
          price = rate_per_token licenseData, payto = wallet_id licenseData,
          license_version_id = rec_id licenseData, license_sig = None,
          license_type = rec_license_type licenseData, error = None\<rparr>)"

text \<open>The block under \<^verbatim>\<open>// Update session summary\<close>.\<close>

definition count_license :: "LicenseInfo \<Rightarrow> LicenseTrackingSummary \<Rightarrow> LicenseTrackingSummary" where
  "count_license l sm =
     (let sm1 = sm\<lparr>total_urls := total_urls sm + 1\<rparr>
      in if license_found l then
           (if action l = Deny then sm1\<lparr>denied_content := denied_content sm1 + 1\<rparr>
            else sm1\<lparr>licensed_content := licensed_content sm1 + 1\<rparr>)
         else sm1\<lparr>unlicensed_content := unlicensed_content sm1 + 1\<rparr>)"

definition count_error :: "LicenseService \<Rightarrow> LicenseService" where
  "count_error s = s\<lparr>sessionSummary := (sessionSummary s)\<lparr>errors := errors (sessionSummary s) + 1\<rparr>\<rparr>"

text \<open>
  The function is \<^verbatim>\<open>async\<close> with one \<^verbatim>\<open>await\<close>. \<open>checkLicense_start\<close> is the part
  that runs before it: the tracking gate and the cache read. \<open>Some l\<close> is an early
  \<^verbatim>\<open>return l\<close>; \<open>None\<close> means the lookup request goes out.
\<close>

definition checkLicense_start :: "LicenseService \<Rightarrow> runtime \<Rightarrow> string \<Rightarrow> LicenseInfo option" where
  "checkLicense_start s rt u =
     (if \<not> enableTracking (config s) then Some (unknown_license u)
      else if enableCache (config s) then
        (case licenseCache s u of
           Some cached \<Rightarrow> if expires cached > int (clock rt) then Some (license cached) else None
         | None \<Rightarrow> None)
      else None)"

text \<open>
  The rest of the \<^verbatim>\<open>try\<close> block, run when the request settles at time \<open>now\<close>, on the
  service state of that moment. \<open>Inl e\<close> is a throw: the rejected request, or a
  TypeError from the selection. Nothing is written before the last point that can throw.
\<close>

definition checkLicense_try ::
  "LicenseService \<Rightarrow> nat \<Rightarrow> string \<Rightarrow> js_error + ledger_data \<Rightarrow> js_error + LicenseInfo \<times> LicenseService" where
  "checkLicense_try s now u outcome =
     (case outcome of
        Inl e \<Rightarrow> Inl e
      | Inr d \<Rightarrow>
          (let licenseArray = licenseArray_of d
           in if length licenseArray = 0 then Inr (unknown_license u, s)
              else case select_license licenseArray of
                     Inl e \<Rightarrow> Inl e
                   | Inr licenseData \<Rightarrow>
                       (let l = license_of_record u licenseData;
                            s1 = (if enableCache (config s)
                                  then s\<lparr>licenseCache := (licenseCache s)
                                         (u \<mapsto> \<lparr>license = l,
                                                expires = int now + cacheTTL (config s) * 1000\<rparr>)\<rparr>
                                  else s);
                            s2 = s1\<lparr>sessionSummary := count_license l (sessionSummary s1)\<rparr>
                        in Inr (l, s2))))"

text \<open>The \<^verbatim>\<open>try\<close> with its \<^verbatim>\<open>catch\<close>.\<close>

definition checkLicense_resume ::
  "LicenseService \<Rightarrow> nat \<Rightarrow> string \<Rightarrow> js_error + ledger_data \<Rightarrow> LicenseInfo \<times> LicenseService" where
  "checkLicense_resume s now u outcome =
     (case checkLicense_try s now u outcome of
        Inr res \<Rightarrow> res
      | Inl e \<Rightarrow> (failed_license u e, count_error s))"

text \<open>
  One call run to completion with nothing else scheduled in between: the request is
  logged, the clock moves by the time the answer took.
\<close>

definition checkLicense ::
  "world \<Rightarrow> LicenseService \<Rightarrow> runtime \<Rightarrow> string \<Rightarrow> LicenseInfo \<times> LicenseService \<times> runtime" where
  "checkLicense w s rt u =
     (case checkLicense_start s rt u of
        Some l \<Rightarrow> (l, s, rt)
      | None \<Rightarrow>
          (let (ms, outcome) = ledger_get w (length (sent rt)) u;
               rt' = \<lparr>clock = clock rt + ms, sent = sent rt @ [LedgerGet u]\<rparr>;
               (l, s') = checkLicense_resume s (clock rt') u outcome
           in (l, s', rt')))"

subsection \<open>logUsage\<close>

text \<open>
  The double nearest to an integer, ties going to the even significand: a double keeps
  the 53 leading bits, so the unit in the last place of a magnitude of \<open>n\<close> bits is
  \<open>2 ^ (n - 53)\<close>, and 1 up to 53 bits, where every integer is a double.
\<close>

definition round_magnitude :: "nat \<Rightarrow> nat" where
  "round_magnitude a =
     (let ulp = 2 ^ (floorlog 2 a - 53);
          q = a div ulp;
          r = a mod ulp;
          q' = (if ulp < 2 * r \<or> (2 * r = ulp \<and> odd q) then q + 1 else q)
      in q' * ulp)"

definition round_to_double :: "int \<Rightarrow> int" where
  "round_to_double x = sgn x * int (round_magnitude (nat \<bar>x\<bar>))"

text \<open>
  \<^verbatim>\<open>total_tokens += tokens\<close> for an integer token count, which is itself a number
  the code holds, so an integer that a double can hold: the exact sum, rounded to a
  double; a rounded sum of magnitude \<open>2 ^ 1024\<close> or more is an infinity, and an infinity
  stays what it is when a finite count is added.
\<close>

definition js_add :: "js_number \<Rightarrow> int \<Rightarrow> js_number" where
  "js_add t n =
     (case t of
        Finite a \<Rightarrow>
          (let r = round_to_double (a + n)
           in if 2 ^ 1024 \<le> r then PosInfinity
              else if r \<le> - (2 ^ 1024) then NegInfinity
              else Finite r)
      | PosInfinity \<Rightarrow> PosInfinity
      | NegInfinity \<Rightarrow> NegInfinity)"

definition logUsage ::
  "world \<Rightarrow> LicenseService \<Rightarrow> runtime \<Rightarrow> string \<Rightarrow> int \<Rightarrow> LicenseInfo \<Rightarrow> LicenseStage \<Rightarrow> Distribution
   \<Rightarrow> bool \<times> LicenseService \<times> runtime" where
  "logUsage w s rt u tokens l stg distr =
     (if \<not> enableTracking (config s) \<or> key_missing (apiKey (config s)) then (False, s, rt)
      else if tokens = 0 then (False, s, rt)
      else
        (let usageLog = \<lparr>log_url = u, log_tokens = tokens,
                          log_license_version_id = license_version_id l,
                          log_license_sig = license_sig l, log_stage = stg,
                          log_distribution = distr, log_timestamp = clock rt\<rparr>;
             (ms, outcome) = ledger_log w (length (sent rt)) usageLog;
             rt' = \<lparr>clock = clock rt + ms, sent = sent rt @ [LedgerUsageLog usageLog]\<rparr>
         in case outcome of
              Inr _ \<Rightarrow>
                (True,
                 s\<lparr>sessionSummary := (sessionSummary s)
                      \<lparr>total_tokens := js_add (total_tokens (sessionSummary s)) tokens\<rparr>\<rparr>,
                 rt')
            | Inl e \<Rightarrow> (False, count_error s, rt')))"

subsection \<open>checkLicenseBatch\<close>

text \<open>
  \<^verbatim>\<open>urls.map(url => this.checkLicense(url).then(...).catch(...))\<close> starts every check
  before any answer can arrive: each call runs up to its \<^verbatim>\<open>await\<close>, so all of them read
  the same cache at the same time. \<open>dispatch\<close> gives, per URL and in input order, the
  early result (\<open>Inl\<close>) or the answer the environment will give to the request that
  went out (\<open>Inr\<close>).
\<close>

fun dispatch ::
  "world \<Rightarrow> LicenseService \<Rightarrow> runtime \<Rightarrow> string list
   \<Rightarrow> (string \<times> (LicenseInfo + ledger_data reply)) list \<times> runtime" where
  "dispatch w s rt [] = ([], rt)"
| "dispatch w s rt (u # us) =
     (case checkLicense_start s rt u of
        Some l \<Rightarrow> (let (ds, rt') = dispatch w s rt us in ((u, Inl l) # ds, rt'))
      | None \<Rightarrow>
          (let r = ledger_get w (length (sent rt)) u;
               (ds, rt') = dispatch w s (rt\<lparr>sent := sent rt @ [LedgerGet u]\<rparr>) us
           in ((u, Inr r) # ds, rt')))"

fun resolved :: "(string \<times> (LicenseInfo + ledger_data reply)) list \<Rightarrow> (string \<times> LicenseInfo) list" where
  "resolved [] = []"
| "resolved ((u, Inl l) # ds) = (u, l) # resolved ds"
| "resolved ((u, Inr r) # ds) = resolved ds"

fun pending :: "(string \<times> (LicenseInfo + ledger_data reply)) list \<Rightarrow> (string \<times> ledger_data reply) list" where
  "pending [] = []"
| "pending ((u, Inl l) # ds) = pending ds"
| "pending ((u, Inr r) # ds) = (u, r) # pending ds"

text \<open>\<^verbatim>\<open>results.set(url, license)\<close> for the checks that returned early, in input order.\<close>

fun set_all :: "(string \<rightharpoonup> LicenseInfo) \<Rightarrow> (string \<times> LicenseInfo) list \<Rightarrow> (string \<rightharpoonup> LicenseInfo)" where
  "set_all results [] = results"
| "set_all results ((u, l) # ps) = set_all (results(u \<mapsto> l)) ps"

text \<open>
  The outstanding checks resume one at a time, each on the state the previous one left
  (scheduling is cooperative), at the time its answer arrives, and store their result.
\<close>

fun settle ::
  "LicenseService \<Rightarrow> nat \<Rightarrow> (string \<rightharpoonup> LicenseInfo) \<Rightarrow> (string \<times> ledger_data reply) list
   \<Rightarrow> (string \<rightharpoonup> LicenseInfo) \<times> LicenseService" where
  "settle s t0 results [] = (results, s)"
| "settle s t0 results ((u, (ms, outcome)) # ps) =
     (let (l, s') = checkLicense_resume s (t0 + ms) u outcome
      in settle s' t0 (results(u \<mapsto> l)) ps)"

definition latest :: "(string \<times> ledger_data reply) list \<Rightarrow> nat" where
  "latest ps = foldr (\<lambda>(u, ms, outcome). max ms) ps 0"

text \<open>
  Answers arrive in the order of the time they take (requests that take equally long, in
  the order they went out); \<^verbatim>\<open>Promise.allSettled\<close> returns after the last one. The
  \<^verbatim>\<open>.catch\<close> handler has no branch here: \<open>checkLicense_resume\<close> always yields a result.
\<close>

definition checkLicenseBatch ::
  "world \<Rightarrow> LicenseService \<Rightarrow> runtime \<Rightarrow> string list
   \<Rightarrow> (string \<rightharpoonup> LicenseInfo) \<times> LicenseService \<times> runtime" where
  "checkLicenseBatch w s rt urls =
     (if length urls = 0 then (Map.empty, s, rt)
      else
        (let (ds, rt1) = dispatch w s rt urls;
             results0 = set_all Map.empty (resolved ds);
             arrivals = sort_key (\<lambda>(u, ms, outcome). ms) (pending ds);
             (results, s') = settle s (clock rt) results0 arrivals
         in (results, s', rt1\<lparr>clock := clock rt + latest arrivals\<rparr>)))"

subsection \<open>acquireLicenseToken\<close>

definition acquireLicenseToken ::
  "world \<Rightarrow> LicenseService \<Rightarrow> runtime \<Rightarrow> acquire_body \<Rightarrow> (js_error + LedgerAcquireResponse) \<times> runtime" where
  "acquireLicenseToken w s rt params =
     (if key_missing (apiKey (config s)) then
        (Inl (Error ''Error'' ''COPYRIGHTSH_LEDGER_API_KEY is required for /api/v1/licenses/acquire''), rt)
      else
        (let (ms, outcome) = ledger_acquire w (length (sent rt)) params
         in (outcome, \<lparr>clock = clock rt + ms, sent = sent rt @ [LedgerAcquire params]\<rparr>)))"

section \<open>The payment-aware fetcher (services/licensed-fetcher.ts)\<close>

text \<open>JavaScript's \<^verbatim>\<open>a || b\<close> on header values: \<^verbatim>\<open>null\<close> and the empty string are falsy.\<close>

definition js_or :: "string option \<Rightarrow> string option \<Rightarrow> string option" where
  "js_or a b = (if a = None \<or> a = Some [] then b else a)"

text \<open>
  \<^verbatim>\<open>toLowerCase\<close> on the ASCII letters, which is all that can produce the characters of
  \<^verbatim>\<open>x402\<close>, and \<^verbatim>\<open>includes\<close>.
\<close>

definition lower_char :: "char \<Rightarrow> char" where
  "lower_char c =
     (let n = (of_char c :: nat) in if 65 \<le> n \<and> n \<le> 90 then char_of (n + 32) else c)"

definition toLowerCase :: "string \<Rightarrow> string" where
  "toLowerCase s = map lower_char s"

fun str_includes :: "string \<Rightarrow> string \<Rightarrow> bool" where
  "str_includes [] p = (p = [])"
| "str_includes (c # cs) p = (take (length p) (c # cs) = p \<or> str_includes cs p)"

text \<open>
  \<^verbatim>\<open>text.slice(0, maxChars)\<close>: a negative end counts from the end of the string.
\<close>

definition slice0 :: "string \<Rightarrow> int \<Rightarrow> string" where
  "slice0 s n = (if n < 0 then take (nat (int (length s) + n)) s else take (nat n) s)"

text \<open>\<^verbatim>\<open>await r.text().catch(() => '')\<close>\<close>

definition text_of :: "response \<Rightarrow> string" where
  "text_of r = (case body r of Some t \<Rightarrow> t | None \<Rightarrow> [])"

definition parseStage :: "string option \<Rightarrow> LicenseStage \<Rightarrow> LicenseStage" where
  "parseStage v fallback =
     (if v = Some ''infer'' then Infer
      else if v = Some ''embed'' then Embed
      else if v = Some ''tune'' then Tune
      else if v = Some ''train'' then Train
      else if v = Some ''default'' then fallback
      else fallback)"

definition parseDistribution :: "string option \<Rightarrow> Distribution \<Rightarrow> Distribution" where
  "parseDistribution v fallback =
     (if v = Some ''private'' then Private
      else if v = Some ''public'' then Public
      else fallback)"

text \<open>
  The deadline of \<open>fetchWithTimeout\<close> aborts the request; the rejection it causes is one
  of the errors the environment can answer with.
\<close>

definition fetchWithTimeout :: "world \<Rightarrow> runtime \<Rightarrow> string \<Rightarrow> (js_error + response) \<times> runtime" where
  "fetchWithTimeout w rt u =
     (let (ms, outcome) = http_get w (length (sent rt)) u
      in (outcome, \<lparr>clock = clock rt + ms, sent = sent rt @ [ContentFetch u]\<rparr>))"

record fetch_opts =
  o_stage :: "LicenseStage option"
  o_distribution :: "Distribution option"
  o_estimatedTokens :: "int option"
  o_paymentMethod :: "PaymentMethod option"
  o_fetchTimeoutMs :: "nat option"
  o_userAgent :: "string option"
  o_maxChars :: "int option"

definition isX402 :: "response \<Rightarrow> bool" where
  "isX402 first =
     (let paymentRequiredHeader = headers first ''payment-required'';
          paymentProtocolHeader = headers first ''x-payment-protocol''
      in str_includes (toLowerCase (case js_or paymentRequiredHeader (Some []) of Some h \<Rightarrow> h | None \<Rightarrow> [])) ''x402''
         \<or> str_includes (toLowerCase (case js_or paymentProtocolHeader (Some []) of Some h \<Rightarrow> h | None \<Rightarrow> [])) ''x402'')"

definition challenge_of :: "response \<Rightarrow> x402_challenge" where
  "challenge_of first =
     \<lparr>x_price = js_or (headers first ''x402-price'') (headers first ''x-license-price''),
      x_payto = js_or (headers first ''x402-payto'') (headers first ''x-license-payto''),
      x_stage = headers first ''x402-stage'',
      x_distribution = js_or (headers first ''x402-distribution'') (headers first ''x-license-distribution''),
      x_facilitator_url = headers first ''x402-facilitator-url''\<rparr>"

text \<open>The result both the unrecognised 402 and the \<^verbatim>\<open>catch\<close> block build from the first response.\<close>

definition first_response_result ::
  "string \<Rightarrow> response \<Rightarrow> int \<Rightarrow> bool \<Rightarrow> string \<Rightarrow> LicensedFetchResult" where
  "first_response_result u first maxChars attempted msg =
     \<lparr>requested_url = u,
      final_url = (if resp_url first = [] then u else resp_url first),
      status = resp_status first,
      content_type = headers first ''content-type'',
      content_text = Some (slice0 (text_of first) maxChars),
      payment_attempted = attempted,
      payment_required = True,
      x402 = Some (challenge_of first),
      acquire = None,
      fetch_error = Some msg\<rparr>"

text \<open>The defaults of the options the claims depend on, and the acquisition request.\<close>

definition maxChars_of :: "fetch_opts \<Rightarrow> int" where
  "maxChars_of opts = (case o_maxChars opts of Some x \<Rightarrow> x | None \<Rightarrow> 200000)"

definition acquire_params :: "string \<Rightarrow> fetch_opts \<Rightarrow> response \<Rightarrow> acquire_body" where
  "acquire_params u opts first =
     (let stage = (case o_stage opts of Some x \<Rightarrow> x | None \<Rightarrow> Infer);
          distrib = (case o_distribution opts of Some x \<Rightarrow> x | None \<Rightarrow> Private);
          estimatedTokens = (case o_estimatedTokens opts of Some x \<Rightarrow> x | None \<Rightarrow> 1500);
          x = challenge_of first
      in \<lparr>b_url = u, b_estimated_tokens = estimatedTokens,
          b_stage = parseStage (x_stage x) stage,
          b_distribution = parseDistribution (x_distribution x) distrib,
          b_payment_method = (case o_paymentMethod opts of Some m \<Rightarrow> m | None \<Rightarrow> AccountBalance),
          b_payment_proof = None, b_payment_amount = None\<rparr>)"

definition licensedFetchText ::
  "world \<Rightarrow> LicenseService \<Rightarrow> runtime \<Rightarrow> string \<Rightarrow> fetch_opts \<Rightarrow> LicensedFetchResult \<times> runtime" where
  "licensedFetchText w ledger rt u opts =
     (let maxChars = maxChars_of opts;
          (r1, rt1) = fetchWithTimeout w rt u
      in case r1 of
           Inl e \<Rightarrow>
             (\<lparr>requested_url = u, final_url = u, status = 0, content_type = None,
               content_text = None, payment_attempted = False, payment_required = False,
               x402 = None, acquire = None, fetch_error = Some (error_text e)\<rparr>, rt1)
         | Inr first \<Rightarrow>
             if resp_status first \<noteq> 402 then
               (\<lparr>requested_url = u,
                 final_url = (if resp_url first = [] then u else resp_url first),
                 status = resp_status first,
                 content_type = headers first ''content-type'',
                 content_text = Some (slice0 (text_of first) maxChars),
                 payment_attempted = False, payment_required = False,
                 x402 = None, acquire = None, fetch_error = None\<rparr>, rt1)
             else if \<not> isX402 first then
               (first_response_result u first maxChars False
                  ''HTTP 402 received but did not advertise x402 in payment-required header'', rt1)
             else
               (let (a, rt2) = acquireLicenseToken w ledger rt1 (acquire_params u opts first)
                in case a of
                     Inl e \<Rightarrow> (first_response_result u first maxChars True (error_text e), rt2)
                   | Inr acq \<Rightarrow>
                       (let (r2, rt3) = fetchWithTimeout w rt2 (licensed_url acq)
                        in case r2 of
                             Inl e \<Rightarrow> (first_response_result u first maxChars True (error_text e), rt3)
                           | Inr second \<Rightarrow>
                               (\<lparr>requested_url = u,
                                 final_url = (if resp_url second = [] then licensed_url acq
                                              else resp_url second),
                                 status = resp_status second,
                                 content_type = headers second ''content-type'',
                                 content_text = Some (slice0 (text_of second) maxChars),
                                 payment_attempted = True, payment_required = True,
                                 x402 = Some (challenge_of first),
                                 acquire = Some
                                   \<lparr>m_licensed_url = licensed_url acq, m_cost = acq_cost acq,
                                    m_currency = acq_currency acq,
                                    m_expires_at = acq_expires_at acq,
                                    m_license_version_id = acq_license_version_id acq,
                                    m_license_sig = acq_license_sig acq\<rparr>,
                                 fetch_error = None\<rparr>, rt3))))"

text \<open>The content fetches among the requests of a log.\<close>

fun content_fetches :: "request list \<Rightarrow> string list" where
  "content_fetches [] = []"
| "content_fetches (ContentFetch u # rs) = u # content_fetches rs"
| "content_fetches (r # rs) = content_fetches rs"

section \<open>The session operations and the states a service can reach\<close>

definition resetSession :: "LicenseService \<Rightarrow> LicenseService" where
  "resetSession s = s\<lparr>sessionSummary := new_summary (config s)\<rparr>"

text \<open>
  \<^verbatim>\<open>cleanup\<close> frees the encoder, if there is one, and clears the cache. The field
  keeps the freed encoder, whose \<^verbatim>\<open>encode\<close> throws from then on.
\<close>

definition freed_encoder :: "string \<Rightarrow> js_error + 32 word list" where
  "freed_encoder content = Inl (Error ''Error'' ''null pointer passed to rust'')"

definition cleanup :: "LicenseService \<Rightarrow> LicenseService" where
  "cleanup s =
     s\<lparr>tokenEncoder := (case tokenEncoder s of None \<Rightarrow> None | Some encode \<Rightarrow> Some freed_encoder),
       licenseCache := Map.empty\<rparr>"

text \<open>
  The class keeps its fields private, so a service is only ever in a state that the
  constructor and its own methods produce.
\<close>

inductive reachable :: "LicenseService \<Rightarrow> bool" where
  constructed: "reachable (new_LicenseService c enc)"
| checked: "reachable s \<Longrightarrow> reachable (fst (snd (checkLicense w s rt u)))"
| batch_checked: "reachable s \<Longrightarrow> reachable (fst (snd (checkLicenseBatch w s rt urls)))"
| logged: "reachable s \<Longrightarrow> reachable (fst (snd (logUsage w s rt u tokens l stg distr)))"
| session_reset: "reachable s \<Longrightarrow> reachable (resetSession s)"
| cleaned: "reachable s \<Longrightarrow> reachable (cleanup s)"

text \<open>The invariant of the data model: a license that was not found has action unknown.\<close>

definition license_ok :: "LicenseInfo \<Rightarrow> bool" where
  "license_ok l = (action l \<in> {Allow, Deny, Unknown} \<and> (\<not> license_found l \<longrightarrow> action l = Unknown))"

definition cache_ok :: "LicenseService \<Rightarrow> bool" where
  "cache_ok s = (\<forall>u c. licenseCache s u = Some c \<longrightarrow> license_ok (license c))"

definition all_ok :: "(string \<rightharpoonup> LicenseInfo) \<Rightarrow> bool" where
  "all_ok m = (\<forall>v l. m v = Some l \<longrightarrow> license_ok l)"

section \<open>The selection rule as the specification words it\<close>

text \<open>
  "The record with the generic license type if present, else the first record", and the
  tri-state mapping of its opt-in field. These follow the specification, to be compared
  with \<open>select_license\<close> and \<open>license_of_record\<close>, which follow the code.
\<close>

definition spec_select :: "ledger_record list \<Rightarrow> ledger_record option" where
  "spec_select recs =
     (case find (\<lambda>r. rec_license_type r = Some ''ai-license'') recs of
        Some r \<Rightarrow> Some r
      | None \<Rightarrow> (case recs of [] \<Rightarrow> None | r0 # _ \<Rightarrow> Some r0))"

definition spec_action :: "string option \<Rightarrow> license_action" where
  "spec_action st =
     (if st = Some ''opt-in'' then Allow else if st = Some ''opt-out'' then Deny else Unknown)"

definition spec_found :: "string option \<Rightarrow> bool" where
  "spec_found st = (st = Some ''opt-in'' \<or> st = Some ''opt-out'')"

text \<open>
  The same rule for any answer, whose items need not all be records. The search for an
  \<open>ai-license\<close> record reads the items in order and is decided by the first item
  that is such a record or is null: the record is selected, and nothing after it is read;
  at a null the answer cannot be read. With no such item, every item is a record of
  another type and the first one is selected.
\<close>

datatype selection = NoRecords | Selected ledger_record | Unreadable

definition spec_selection :: "json_item list \<Rightarrow> selection" where
  "spec_selection items =
     (if items = [] then NoRecords
      else case dropWhile (\<lambda>i. case i of JNull \<Rightarrow> False
                                   | JObject r \<Rightarrow> rec_license_type r \<noteq> Some ''ai-license'') items of
             JObject r # _ \<Rightarrow> Selected r
           | JNull # _ \<Rightarrow> Unreadable
           | [] \<Rightarrow> (case items of JObject r0 # _ \<Rightarrow> Selected r0 | _ \<Rightarrow> Unreadable))"

section \<open>One check of a batch, taken alone\<close>

text \<open>
  The license a check of \<open>u\<close> started on service \<open>s\<close> at \<open>rt\<close> returns when the
  lookup it sends, if it sends one, is answered by \<open>r\<close>; and the sequence number of the
  request a batch sends for its \<open>i\<close>-th URL: the requests sent before the batch, and one
  for each earlier URL of the batch that was not answered at once.
\<close>

definition check_result :: "LicenseService \<Rightarrow> runtime \<Rightarrow> string \<Rightarrow> ledger_data reply \<Rightarrow> LicenseInfo" where
  "check_result s rt u r =
     (case checkLicense_start s rt u of
        Some l \<Rightarrow> l
      | None \<Rightarrow> fst (checkLicense_resume s (clock rt + fst r) u (snd r)))"

definition request_index :: "LicenseService \<Rightarrow> runtime \<Rightarrow> string list \<Rightarrow> nat \<Rightarrow> nat" where
  "request_index s rt urls i =
     length (sent rt) + length (filter (\<lambda>u. checkLicense_start s rt u = None) (take i urls))"

section \<open>Concrete inputs\<close>

definition ex_config :: LicenseServiceConfig where
  "ex_config =
     \<lparr>apiUrl = ''https://ledger.copyright.sh'', apiKey = Some ''key'',
      licenseCheckTimeout = 5000, licenseAcquireTimeout = 8000, usageLogTimeout = 3000,
      enableTracking = True, enableCache = True, cacheTTL = 300\<rparr>"

definition ex_service :: LicenseService where
  "ex_service = new_LicenseService ex_config None"

definition ex_runtime :: runtime where
  "ex_runtime = \<lparr>clock = 1000, sent = []\<rparr>"

definition ex_record :: ledger_record where
  "ex_record =
     \<lparr>rec_license_type = Some ''ai-license'', opt_in_status = Some ''opt-in'',
      rate_per_token = Some 2, wallet_id = Some ''wallet'', rec_id = Some 7\<rparr>"

definition ex_other_record :: ledger_record where
  "ex_other_record =
     \<lparr>rec_license_type = Some ''train-license'', opt_in_status = Some ''opt-out'',
      rate_per_token = None, wallet_id = None, rec_id = Some 8\<rparr>"

definition ex_acquired :: LedgerAcquireResponse where
  "ex_acquired =
     \<lparr>licensed_url = ''https://site.example/paid'', acq_license_version_id = 7,
      acq_license_sig = ''sig'', acq_expires_at = ''2026-01-01T00:00:00Z'', acq_cost = 1,
      acq_currency = ''USD'', acq_stage = Infer, acq_distribution = Private,
      acq_estimated_tokens = 1500, acq_license_status = ''active'',
      acq_rate_per_1k_tokens = 1\<rparr>"

definition ex_challenge :: response where
  "ex_challenge =
     \<lparr>resp_url = ''https://site.example/a'', resp_status = 402,
      headers = [''payment-required'' \<mapsto> ''x402''], body = Some ''Payment Required''\<rparr>"

definition ex_page :: response where
  "ex_page =
     \<lparr>resp_url = ''https://cdn.example/paid'', resp_status = 200,
      headers = [''content-type'' \<mapsto> ''text/html''], body = Some ''hello''\<rparr>"

definition ex_opts :: fetch_opts where
  "ex_opts =
     \<lparr>o_stage = None, o_distribution = None, o_estimatedTokens = None, o_paymentMethod = None,
      o_fetchTimeoutMs = None, o_userAgent = None, o_maxChars = Some 3\<rparr>"

text \<open>
  A ledger that knows two records for every URL, and a site that asks for payment and
  serves the licensed URL from another host.
\<close>

definition ex_world :: world where
  "ex_world =
     \<lparr>ledger_get = (\<lambda>n u. (20, Inr (DArray [JObject ex_other_record, JObject ex_record]))),
      ledger_acquire = (\<lambda>n b. (30, Inr ex_acquired)),
      ledger_log = (\<lambda>n e. (10, Inr ())),
      http_get = (\<lambda>n u. if u = ''https://site.example/paid'' then (40, Inr ex_page)
                         else (40, Inr ex_challenge))\<rparr>"

text \<open>A ledger that knows no record for any URL.\<close>

definition ex_empty_world :: world where
  "ex_empty_world = ex_world\<lparr>ledger_get := (\<lambda>n u. (20, Inr (DArray [])))\<rparr>"

text \<open>An environment in which every request fails.\<close>

definition ex_down_world :: world where
  "ex_down_world =
     \<lparr>ledger_get = (\<lambda>n u. (5000, Inl (Error ''AxiosError'' ''timeout of 5000ms exceeded''))),
      ledger_acquire = (\<lambda>n b. (8000, Inl (Error ''AxiosError'' ''timeout of 8000ms exceeded''))),
      ledger_log = (\<lambda>n e. (3000, Inl (Error ''AxiosError'' ''timeout of 3000ms exceeded''))),
      http_get = (\<lambda>n u. (12000, Inl (Error ''AbortError'' ''This operation was aborted'')))\<rparr>"

text \<open>The site of \<open>ex_world\<close>, with the licensed URL unreachable.\<close>

definition ex_flaky_world :: world where
  "ex_flaky_world =
     ex_world\<lparr>http_get := (\<lambda>n u. if u = ''https://site.example/paid''
                                   then (12000, Inl (Error ''AbortError'' ''This operation was aborted''))
                                   else (40, Inr ex_challenge))\<rparr>"

definition ex_url :: string where
  "ex_url = ''https://site.example/a''"

text \<open>The outcome of a first check of \<open>ex_url\<close> by a fresh service.\<close>

definition ex_checked :: "LicenseInfo \<times> LicenseService \<times> runtime" where
  "ex_checked = checkLicense ex_world ex_service ex_runtime ex_url"

text \<open>The same first check against the ledger that knows no record.\<close>

definition ex_unanswered :: "LicenseInfo \<times> LicenseService \<times> runtime" where
  "ex_unanswered = checkLicense ex_empty_world ex_service ex_runtime ex_url"

text \<open>A ledger whose answer holds a record of another type and a null.\<close>

definition ex_null_world :: world where
  "ex_null_world = ex_world\<lparr>ledger_get := (\<lambda>n u. (20, Inr (DArray [JObject ex_other_record, JNull])))\<rparr>"

text \<open>A ledger that times out on one URL, sooner than it answers the others.\<close>

definition ex_bad_url :: string where
  "ex_bad_url = ''https://site.example/bad''"

definition ex_mixed_world :: world where
  "ex_mixed_world =
     ex_world\<lparr>ledger_get := (\<lambda>n u. if u = ex_bad_url
                                     then (10, Inl (Error ''AxiosError'' ''timeout of 10ms exceeded''))
                                     else (20, Inr (DArray [JObject ex_other_record, JObject ex_record])))\<rparr>"

text \<open>The outcome of logging \<open>2 ^ 53\<close> tokens on a fresh service.\<close>

definition ex_logged :: "bool \<times> LicenseService \<times> runtime" where
  "ex_logged =
     logUsage ex_world ex_service ex_runtime ex_url 9007199254740992 (unknown_license ex_url)
       Infer Private"

section \<open>Auxiliary facts\<close>

lemma ceil4_rat: "\<lceil>(of_nat n :: rat) / 4\<rceil> = (int n + 3) div 4"
proof -
  have "\<lceil>(of_int (int n) :: rat) / of_int 4\<rceil> = - (- int n div 4)"
    by (rule ceiling_divide_eq_div)
  then show ?thesis by simp
qed

lemma ceil4_real: "\<lceil>real n / 4\<rceil> = (int n + 3) div 4"
proof -
  have "\<lceil>(of_int (int n) :: real) / of_int 4\<rceil> = - (- int n div 4)"
    by (rule ceiling_divide_eq_div)
  then show ?thesis by simp
qed

lemma triple_collapse: "p = (fst p, fst (snd p), snd (snd p))"
  by simp

subsection \<open>One check, by the way it ends\<close>

lemma checkLicense_issued:
  assumes "checkLicense_start s rt u = None"
      and "ledger_get w (length (sent rt)) u = (ms, outcome)"
  shows "checkLicense w s rt u =
           (fst (checkLicense_resume s (clock rt + ms) u outcome),
            snd (checkLicense_resume s (clock rt + ms) u outcome),
            \<lparr>clock = clock rt + ms, sent = sent rt @ [LedgerGet u]\<rparr>)"
  using assms by (simp add: checkLicense_def split: prod.splits)

lemma checkLicense_returned:
  assumes "checkLicense_start s rt u = Some l"
  shows "checkLicense w s rt u = (l, s, rt)"
  using assms by (simp add: checkLicense_def)

lemma resume_failure:
  "checkLicense_resume s now u (Inl e) = (failed_license u e, count_error s)"
  by (simp add: checkLicense_resume_def checkLicense_try_def)

lemma resume_selected:
  assumes "select_license (licenseArray_of d) = Inr r"
  shows "checkLicense_resume s now u (Inr d) =
           (license_of_record u r,
            (if enableCache (config s)
             then s\<lparr>licenseCache := (licenseCache s)
                      (u \<mapsto> \<lparr>license = license_of_record u r,
                             expires = int now + cacheTTL (config s) * 1000\<rparr>)\<rparr>
             else s)
            \<lparr>sessionSummary := count_license (license_of_record u r) (sessionSummary s)\<rparr>)"
proof -
  have "licenseArray_of d \<noteq> []"
    using assms by (auto simp: select_license_def)
  then show ?thesis
    using assms
    by (simp add: checkLicense_resume_def checkLicense_try_def Let_def)
qed

lemma resume_empty:
  "checkLicense_resume s now u (Inr (DArray [])) = (unknown_license u, s)"
  by (simp add: checkLicense_resume_def checkLicense_try_def licenseArray_of_def)

lemma find_ai_license_objects:
  "find_ai_license (map JObject recs) = Inr (find (\<lambda>r. rec_license_type r = Some ''ai-license'') recs)"
  by (induction recs) simp_all

lemma select_license_objects:
  "select_license (map JObject (r0 # rest)) =
     Inr (case find (\<lambda>r. rec_license_type r = Some ''ai-license'') (r0 # rest) of
            Some r \<Rightarrow> r | None \<Rightarrow> r0)"
  unfolding select_license_def find_ai_license_objects
  by (simp split: option.splits)

subsection \<open>The cache only holds licenses that satisfy the invariant\<close>

lemma license_ok_unknown: "license_ok (unknown_license u)"
  by (simp add: license_ok_def unknown_license_def)

lemma license_ok_failed: "license_ok (failed_license u e)"
  by (simp add: license_ok_def failed_license_def unknown_license_def)

lemma license_ok_record: "license_ok (license_of_record u r)"
  by (simp add: license_ok_def license_of_record_def Let_def)

lemma try_ok:
  assumes "cache_ok s" and "checkLicense_try s now u outcome = Inr (l, s')"
  shows "license_ok l \<and> cache_ok s'"
  using assms
  by (auto simp: checkLicense_try_def Let_def cache_ok_def license_ok_unknown license_ok_record
      split: sum.splits if_splits)

lemma resume_ok:
  assumes "cache_ok s"
  shows "license_ok (fst (checkLicense_resume s now u outcome))
         \<and> cache_ok (snd (checkLicense_resume s now u outcome))"
proof (cases "checkLicense_try s now u outcome")
  case (Inl e)
  then show ?thesis
    using assms by (simp add: checkLicense_resume_def license_ok_failed count_error_def cache_ok_def)
next
  case (Inr res)
  then show ?thesis
    using try_ok[OF assms, of now u outcome "fst res" "snd res"]
    by (simp add: checkLicense_resume_def)
qed

lemma start_ok:
  assumes "cache_ok s" and "checkLicense_start s rt u = Some l"
  shows "license_ok l"
  using assms
  by (auto simp: checkLicense_start_def cache_ok_def license_ok_unknown split: if_splits option.splits)

lemma checkLicense_ok:
  assumes "cache_ok s"
  shows "license_ok (fst (checkLicense w s rt u)) \<and> cache_ok (fst (snd (checkLicense w s rt u)))"
proof (cases "checkLicense_start s rt u")
  case None
  obtain ms outcome where "ledger_get w (length (sent rt)) u = (ms, outcome)"
    by (cases "ledger_get w (length (sent rt)) u")
  with None show ?thesis
    using resume_ok[OF assms] by (simp add: checkLicense_issued)
next
  case (Some l)
  then show ?thesis
    using assms start_ok[OF assms Some] by (simp add: checkLicense_returned)
qed

lemma set_all_ok:
  "all_ok m \<Longrightarrow> (\<forall>p \<in> set ps. license_ok (snd p)) \<Longrightarrow> all_ok (set_all m ps)"
proof (induction ps arbitrary: m)
  case Nil
  then show ?case by simp
next
  case (Cons p ps)
  obtain u l where p: "p = (u, l)"
    by (cases p)
  have "license_ok l"
    using Cons.prems(2) p by simp
  then have "all_ok (m(u \<mapsto> l))"
    using Cons.prems(1) by (simp add: all_ok_def)
  then have "all_ok (set_all (m(u \<mapsto> l)) ps)"
    using Cons.IH Cons.prems(2) by simp
  then show ?case
    by (simp add: p)
qed

lemma settle_ok:
  "cache_ok s \<Longrightarrow> all_ok m \<Longrightarrow>
     all_ok (fst (settle s t0 m ps)) \<and> cache_ok (snd (settle s t0 m ps))"
proof (induction ps arbitrary: s m)
  case Nil
  then show ?case by simp
next
  case (Cons p ps)
  obtain u ms outcome where p: "p = (u, ms, outcome)"
    by (cases p) auto
  obtain l s' where r: "checkLicense_resume s (t0 + ms) u outcome = (l, s')"
    by (cases "checkLicense_resume s (t0 + ms) u outcome")
  have ok: "license_ok l" "cache_ok s'"
    using resume_ok[OF Cons.prems(1), of "t0 + ms" u outcome] r by simp_all
  have "all_ok (m(u \<mapsto> l))"
    using Cons.prems(2) ok(1) by (simp add: all_ok_def)
  then have "all_ok (fst (settle s' t0 (m(u \<mapsto> l)) ps)) \<and> cache_ok (snd (settle s' t0 (m(u \<mapsto> l)) ps))"
    using Cons.IH ok(2) by blast
  then show ?case
    by (simp add: p r)
qed

lemma start_sent [simp]: "checkLicense_start s (rt\<lparr>sent := x\<rparr>) u = checkLicense_start s rt u"
  by (simp add: checkLicense_start_def split: option.splits)

lemma dispatch_resolved_ok:
  "cache_ok s \<Longrightarrow> \<forall>p \<in> set (resolved (fst (dispatch w s rt urls))). license_ok (snd p)"
proof (induction urls arbitrary: rt)
  case Nil
  then show ?case by simp
next
  case (Cons u us)
  show ?case
  proof (cases "checkLicense_start s rt u")
    case None
    then show ?thesis
      using Cons.IH[OF Cons.prems, of "rt\<lparr>sent := sent rt @ [LedgerGet u]\<rparr>"]
      by (simp split: prod.splits)
  next
    case (Some l)
    then show ?thesis
      using Cons.IH[OF Cons.prems, of rt] start_ok[OF Cons.prems Some]
      by (simp split: prod.splits)
  qed
qed

lemma batch_ok:
  assumes "cache_ok s"
  shows "all_ok (fst (checkLicenseBatch w s rt urls))
         \<and> cache_ok (fst (snd (checkLicenseBatch w s rt urls)))"
proof (cases "urls = []")
  case True
  then show ?thesis using assms by (simp add: checkLicenseBatch_def all_ok_def)
next
  case False
  obtain ds rt1 where d: "dispatch w s rt urls = (ds, rt1)"
    by (cases "dispatch w s rt urls")
  have r: "all_ok (set_all Map.empty (resolved ds))"
    using dispatch_resolved_ok[OF assms, of w rt urls] d
    by (intro set_all_ok) (simp_all add: all_ok_def)
  show ?thesis
    using False d
      settle_ok[OF assms r, of "clock rt" "sort_key (\<lambda>(u, ms, outcome). ms) (pending ds)"]
    by (simp add: checkLicenseBatch_def Let_def case_prod_beta)
qed

lemma logUsage_cache: "licenseCache (fst (snd (logUsage w s rt u tokens l stg distr))) = licenseCache s"
  by (simp add: logUsage_def count_error_def Let_def split: prod.splits sum.splits)

lemma reachable_cache_ok: "reachable s \<Longrightarrow> cache_ok s"
proof (induction rule: reachable.induct)
  case (constructed c enc)
  then show ?case by (simp add: cache_ok_def new_LicenseService_def)
next
  case (checked s w rt u)
  then show ?case using checkLicense_ok by blast
next
  case (batch_checked s w rt urls)
  then show ?case using batch_ok by blast
next
  case (logged s w rt u tokens l stg distr)
  then show ?case by (simp add: cache_ok_def logUsage_cache)
next
  case (session_reset s)
  then show ?case by (simp add: cache_ok_def resetSession_def)
next
  case (cleaned s)
  then show ?case by (simp add: cache_ok_def cleanup_def)
qed

subsection \<open>The batch: keys and requests\<close>

lemma dispatch_urls: "map fst (fst (dispatch w s rt urls)) = urls"
  by (induction urls arbitrary: rt) (simp_all add: case_prod_beta split: option.splits)

lemma dispatch_sent:
  "sent (snd (dispatch w s rt urls)) =
     sent rt @ map LedgerGet (filter (\<lambda>u. checkLicense_start s rt u = None) urls)"
  by (induction urls arbitrary: rt) (simp_all add: case_prod_beta split: option.splits)

lemma resolved_pending_keys:
  "fst ` set (resolved ds) \<union> fst ` set (pending ds) = fst ` set ds"
  by (induction ds rule: resolved.induct) auto

lemma dom_set_all: "dom (set_all m ps) = dom m \<union> fst ` set ps"
proof (induction ps arbitrary: m)
  case Nil
  show ?case by simp
next
  case (Cons p ps)
  obtain u l where p: "p = (u, l)"
    by (cases p)
  have "dom (set_all (m(u \<mapsto> l)) ps) = dom (m(u \<mapsto> l)) \<union> fst ` set ps"
    by (rule Cons.IH)
  then show ?case
    by (simp add: p)
qed

lemma dom_settle: "dom (fst (settle s t0 m ps)) = dom m \<union> fst ` set ps"
proof (induction ps arbitrary: s m)
  case Nil
  show ?case by simp
next
  case (Cons p ps)
  obtain u ms outcome where p: "p = (u, ms, outcome)"
    by (cases p) auto
  obtain l s' where r: "checkLicense_resume s (t0 + ms) u outcome = (l, s')"
    by (cases "checkLicense_resume s (t0 + ms) u outcome")
  have "dom (fst (settle s' t0 (m(u \<mapsto> l)) ps)) = dom (m(u \<mapsto> l)) \<union> fst ` set ps"
    by (rule Cons.IH)
  then show ?case
    by (simp add: p r)
qed

subsection \<open>Cache writes\<close>

lemma resume_cache:
  "licenseCache (snd (checkLicense_resume s now u outcome)) = licenseCache s
   \<or> (enableCache (config s)
       \<and> error (fst (checkLicense_resume s now u outcome)) = None
       \<and> licenseCache (snd (checkLicense_resume s now u outcome)) =
           (licenseCache s)(u \<mapsto> \<lparr>license = fst (checkLicense_resume s now u outcome),
                                   expires = int now + cacheTTL (config s) * 1000\<rparr>))"
  by (auto simp: checkLicense_resume_def checkLicense_try_def Let_def count_error_def
      license_of_record_def split: sum.splits)

lemma checkLicense_cache_write:
  "licenseCache (fst (snd (checkLicense w s rt u))) = licenseCache s
   \<or> (enableCache (config s)
       \<and> error (fst (checkLicense w s rt u)) = None
       \<and> licenseCache (fst (snd (checkLicense w s rt u))) =
           (licenseCache s)(u \<mapsto> \<lparr>license = fst (checkLicense w s rt u),
                 expires = int (clock (snd (snd (checkLicense w s rt u)))) + cacheTTL (config s) * 1000\<rparr>))"
proof (cases "checkLicense_start s rt u")
  case None
  obtain ms outcome where g: "ledger_get w (length (sent rt)) u = (ms, outcome)"
    by (cases "ledger_get w (length (sent rt)) u")
  show ?thesis
    using resume_cache[of s "clock rt + ms" u outcome]
    by (simp add: checkLicense_issued[OF None g])
next
  case (Some l)
  then show ?thesis by (simp add: checkLicense_returned)
qed

subsection \<open>The fetcher after a recognised challenge and a successful acquisition\<close>

lemma licensedFetchText_paid_path:
  assumes "http_get w (length (sent rt)) u = (ms1, Inr first)"
      and "resp_status first = 402"
      and "isX402 first"
      and "\<not> key_missing (apiKey (config ledger))"
      and "ledger_acquire w (Suc (length (sent rt))) (acquire_params u opts first) = (ms2, Inr acq)"
      and "http_get w (Suc (Suc (length (sent rt)))) (licensed_url acq) = (ms3, r2)"
  shows "licensedFetchText w ledger rt u opts =
           (case r2 of
              Inl e \<Rightarrow> first_response_result u first (maxChars_of opts) True (error_text e)
            | Inr second \<Rightarrow>
                \<lparr>requested_url = u,
                 final_url = (if resp_url second = [] then licensed_url acq else resp_url second),
                 status = resp_status second,
                 content_type = headers second ''content-type'',
                 content_text = Some (slice0 (text_of second) (maxChars_of opts)),
                 payment_attempted = True, payment_required = True,
                 x402 = Some (challenge_of first),
                 acquire = Some
                   \<lparr>m_licensed_url = licensed_url acq, m_cost = acq_cost acq,
                    m_currency = acq_currency acq, m_expires_at = acq_expires_at acq,
                    m_license_version_id = acq_license_version_id acq,
                    m_license_sig = acq_license_sig acq\<rparr>,
                 fetch_error = None\<rparr>,
            \<lparr>clock = clock rt + ms1 + ms2 + ms3,
             sent = sent rt @ [ContentFetch u, LedgerAcquire (acquire_params u opts first),
                               ContentFetch (licensed_url acq)]\<rparr>)"
  using assms
  by (simp add: licensedFetchText_def fetchWithTimeout_def acquireLicenseToken_def Let_def
      split: sum.splits)

lemma content_fetches_append:
  "content_fetches (xs @ ys) = content_fetches xs @ content_fetches ys"
  by (induction xs rule: content_fetches.induct) simp_all

lemma slice0_take: "0 \<le> n \<Longrightarrow> slice0 t n = take (nat n) t"
  by (simp add: slice0_def)

lemma ex_isX402: "isX402 ex_challenge"
  by (simp add: isX402_def ex_challenge_def js_or_def toLowerCase_def lower_char_def)

subsection \<open>The token total\<close>

lemma round_magnitude_exact:
  assumes "a \<le> 2 ^ 53"
  shows "round_magnitude a = a"
proof (cases "a = 2 ^ 53")
  case True
  have "floorlog 2 (2 ^ 53) = 54"
    using floorlog_power [of 1 2 53] by (simp add: floorlog_def)
  then have "floorlog 2 (9007199254740992::nat) = 54"
    by simp
  then show ?thesis
    using True by (simp add: round_magnitude_def Let_def)
next
  case False
  then have "a < 2 ^ 53"
    using assms by simp
  then have "floorlog 2 a - 53 = 0"
    by (simp add: floorlog_le_iff)
  then show ?thesis
    by (simp add: round_magnitude_def Let_def)
qed

lemma round_to_double_exact:
  assumes "\<bar>x\<bar> \<le> 2 ^ 53"
  shows "round_to_double x = x"
proof -
  have "nat \<bar>x\<bar> \<le> 2 ^ 53"
    using assms by (simp add: nat_le_iff)
  then have "round_magnitude (nat \<bar>x\<bar>) = nat \<bar>x\<bar>"
    by (rule round_magnitude_exact)
  then show ?thesis
    by (simp add: round_to_double_def sgn_if)
qed

lemma js_add_exact:
  assumes "\<bar>a + n\<bar> \<le> 2 ^ 53"
  shows "js_add (Finite a) n = Finite (a + n)"
proof -
  have "(2::int) ^ 53 < 2 ^ 1024"
    by (rule power_strict_increasing) simp_all
  then have "a + n < 2 ^ 1024" "- (2 ^ 1024) < a + n"
    using assms by linarith+
  then show ?thesis
    by (simp add: js_add_def round_to_double_exact [OF assms] Let_def)
qed

lemma round_magnitude_2_53_1: "round_magnitude 9007199254740993 = 9007199254740992"
proof -
  have "floorlog 2 (2 ^ 53 + 1) = 54"
  proof (rule antisym)
    show "floorlog 2 (2 ^ 53 + 1) \<le> 54"
      by (simp add: floorlog_le_iff)
    show "54 \<le> floorlog 2 (2 ^ 53 + 1)"
      by (rule floorlog_geI) simp_all
  qed
  then have f: "floorlog 2 (9007199254740993::nat) = 54" by simp
  show ?thesis
    by (simp add: round_magnitude_def f Let_def)
qed

lemma js_add_2_53_1: "js_add (Finite 9007199254740992) 1 = Finite 9007199254740992"
proof -
  have "(2::int) ^ 53 < 2 ^ 1024"
    by (rule power_strict_increasing) simp_all
  then have "(9007199254740992::int) < 2 ^ 1024" "- (2 ^ 1024) < (9007199254740992::int)"
    by simp_all
  then show ?thesis
    by (simp add: js_add_def round_to_double_def round_magnitude_2_53_1 Let_def)
qed

subsection \<open>The entries of the batch\<close>

lemma checkLicense_check_result:
  "fst (checkLicense w s rt u) = check_result s rt u (ledger_get w (length (sent rt)) u)"
  by (simp add: checkLicense_def check_result_def case_prod_beta split: option.splits)

lemma resume_license_state:
  "fst (checkLicense_resume s now u out) = fst (checkLicense_resume s' now' u out)"
  by (simp add: checkLicense_resume_def checkLicense_try_def Let_def split: sum.splits)

lemma set_all_value:
  "set_all m ps v = Some l \<Longrightarrow> m v = Some l \<or> (v, l) \<in> set ps"
proof (induction ps arbitrary: m)
  case Nil
  then show ?case by simp
next
  case (Cons p ps)
  obtain u k where p: "p = (u, k)"
    by (cases p)
  have "set_all (m(u \<mapsto> k)) ps v = Some l"
    using Cons.prems by (simp add: p)
  then have "(m(u \<mapsto> k)) v = Some l \<or> (v, l) \<in> set ps"
    by (rule Cons.IH)
  then show ?case
    by (auto simp: p split: if_splits)
qed

lemma settle_value:
  "fst (settle s t0 m ps) v = Some l \<Longrightarrow>
     m v = Some l \<or> (\<exists>ms out. (v, ms, out) \<in> set ps \<and> l = fst (checkLicense_resume s0 (t1 + ms) v out))"
proof (induction ps arbitrary: s m)
  case Nil
  then show ?case by simp
next
  case (Cons p ps)
  obtain u ms out where p: "p = (u, ms, out)"
    by (cases p) auto
  obtain k s' where r: "checkLicense_resume s (t0 + ms) u out = (k, s')"
    by (cases "checkLicense_resume s (t0 + ms) u out")
  have k: "k = fst (checkLicense_resume s0 (t1 + ms) u out)"
    using r resume_license_state [of s "t0 + ms" u out s0 "t1 + ms"] by simp
  have "fst (settle s' t0 (m(u \<mapsto> k)) ps) v = Some l"
    using Cons.prems by (simp add: p r)
  then have "(m(u \<mapsto> k)) v = Some l \<or>
      (\<exists>ms out. (v, ms, out) \<in> set ps \<and> l = fst (checkLicense_resume s0 (t1 + ms) v out))"
    by (rule Cons.IH)
  then show ?case
    using k by (auto simp: p split: if_splits)
qed

lemma resolved_mem: "(v, l) \<in> set (resolved ds) \<longleftrightarrow> (v, Inl l) \<in> set ds"
  by (induction ds rule: resolved.induct) auto

lemma pending_mem: "(v, r) \<in> set (pending ds) \<longleftrightarrow> (v, Inr r) \<in> set ds"
  by (induction ds rule: pending.induct) auto

lemma dispatch_nth:
  "i < length urls \<Longrightarrow>
     fst (dispatch w s rt urls) ! i =
       (urls ! i,
        case checkLicense_start s rt (urls ! i) of
          Some l \<Rightarrow> Inl l
        | None \<Rightarrow> Inr (ledger_get w (request_index s rt urls i) (urls ! i)))"
proof (induction urls arbitrary: rt i)
  case Nil
  then show ?case by simp
next
  case (Cons u us)
  show ?case
  proof (cases i)
    case 0
    then show ?thesis
      by (simp add: request_index_def case_prod_beta split: option.splits)
  next
    case (Suc j)
    then have j: "j < length us"
      using Cons.prems by simp
    show ?thesis
    proof (cases "checkLicense_start s rt u")
      case None
      have "request_index s (rt\<lparr>sent := sent rt @ [LedgerGet u]\<rparr>) us j = request_index s rt (u # us) (Suc j)"
        using None by (simp add: request_index_def)
      then show ?thesis
        using Cons.IH [OF j, of "rt\<lparr>sent := sent rt @ [LedgerGet u]\<rparr>"] None Suc
        by (simp add: case_prod_beta split: option.splits)
    next
      case (Some l)
      have "request_index s rt us j = request_index s rt (u # us) (Suc j)"
        using Some by (simp add: request_index_def)
      then show ?thesis
        using Cons.IH [OF j, of rt] Some Suc
        by (simp add: case_prod_beta split: option.splits)
    qed
  qed
qed

lemma dispatch_length: "length (fst (dispatch w s rt urls)) = length urls"
  using dispatch_urls [of w s rt urls] by (metis length_map)

lemma batch_keys_and_requests:
  "dom (fst (checkLicenseBatch w s rt urls)) = set urls
   \<and> checkLicenseBatch w s rt [] = (Map.empty, s, rt)
   \<and> sent (snd (snd (checkLicenseBatch w s rt urls))) =
       sent rt @ map LedgerGet (filter (\<lambda>u. checkLicense_start s rt u = None) urls)"
proof (cases "urls = []")
  case True
  then show ?thesis by (simp add: checkLicenseBatch_def)
next
  case False
  obtain ds rt1 where d: "dispatch w s rt urls = (ds, rt1)"
    by (cases "dispatch w s rt urls")
  have keys: "fst ` set ds = set urls"
    using dispatch_urls[of w s rt urls] d by (metis fst_conv set_map)
  have log: "sent rt1 = sent rt @ map LedgerGet (filter (\<lambda>u. checkLicense_start s rt u = None) urls)"
    using dispatch_sent[of w s rt urls] d by simp
  have "dom (fst (settle s (clock rt) (set_all Map.empty (resolved ds))
                (sort_key (\<lambda>(u, ms, outcome). ms) (pending ds)))) =
          fst ` set (resolved ds) \<union> fst ` set (pending ds)"
    by (simp add: dom_settle dom_set_all)
  then have k: "dom (fst (settle s (clock rt) (set_all Map.empty (resolved ds))
                (sort_key (\<lambda>(u, ms, outcome). ms) (pending ds)))) = set urls"
    using resolved_pending_keys[of ds] keys by simp
  have b: "checkLicenseBatch w s rt urls =
             (fst (settle s (clock rt) (set_all Map.empty (resolved ds))
                (sort_key (\<lambda>(u, ms, outcome). ms) (pending ds))),
              snd (settle s (clock rt) (set_all Map.empty (resolved ds))
                (sort_key (\<lambda>(u, ms, outcome). ms) (pending ds))),
              rt1\<lparr>clock := clock rt + latest (sort_key (\<lambda>(u, ms, outcome). ms) (pending ds))\<rparr>)"
    using False d by (simp add: checkLicenseBatch_def Let_def case_prod_beta)
  have e: "checkLicenseBatch w s rt [] = (Map.empty, s, rt)"
    by (simp add: checkLicenseBatch_def)
  show ?thesis
    unfolding b using k log e by simp
qed

lemma batch_value:
  assumes "fst (checkLicenseBatch w s rt urls) v = Some l"
  shows "\<exists>i<length urls. urls ! i = v
           \<and> l = check_result s rt v (ledger_get w (request_index s rt urls i) v)"
proof (cases "urls = []")
  case True
  then show ?thesis
    using assms by (simp add: checkLicenseBatch_def)
next
  case False
  define ds where "ds = fst (dispatch w s rt urls)"
  have res: "fst (checkLicenseBatch w s rt urls) =
          fst (settle s (clock rt) (set_all Map.empty (resolved ds))
                (sort_key (\<lambda>(u, ms, outcome). ms) (pending ds)))"
    using False by (simp add: checkLicenseBatch_def Let_def case_prod_beta ds_def)
  have nth: "\<exists>i<length urls. urls ! i = v \<and>
               x = (case checkLicense_start s rt v of
                      Some l \<Rightarrow> Inl l
                    | None \<Rightarrow> Inr (ledger_get w (request_index s rt urls i) v))"
    if vx: "(v, x) \<in> set ds" for x
  proof -
    obtain i where i: "i < length ds" "ds ! i = (v, x)"
      using vx unfolding in_set_conv_nth by blast
    have len: "i < length urls"
      using i(1) by (simp add: ds_def dispatch_length)
    have "ds ! i =
       (urls ! i,
        case checkLicense_start s rt (urls ! i) of
          Some l \<Rightarrow> Inl l
        | None \<Rightarrow> Inr (ledger_get w (request_index s rt urls i) (urls ! i)))"
      unfolding ds_def using len by (rule dispatch_nth)
    then have "urls ! i = v"
      and "x = (case checkLicense_start s rt (urls ! i) of
          Some l \<Rightarrow> Inl l
        | None \<Rightarrow> Inr (ledger_get w (request_index s rt urls i) (urls ! i)))"
      using i(2) by simp_all
    then show ?thesis
      using len by blast
  qed
  from assms res settle_value [of s "clock rt" "set_all Map.empty (resolved ds)"
      "sort_key (\<lambda>(u, ms, outcome). ms) (pending ds)" v l s "clock rt"]
  consider (early) "set_all Map.empty (resolved ds) v = Some l"
    | (late) ms out where "(v, ms, out) \<in> set (pending ds)"
        "l = fst (checkLicense_resume s (clock rt + ms) v out)"
    by auto
  then show ?thesis
  proof cases
    case early
    then have "(v, Inl l) \<in> set ds"
      using set_all_value [of Map.empty "resolved ds" v l] by (simp add: resolved_mem)
    then obtain i where i: "i < length urls" "urls ! i = v"
      and x: "Inl l = (case checkLicense_start s rt v of
                      Some l \<Rightarrow> Inl l
                    | None \<Rightarrow> Inr (ledger_get w (request_index s rt urls i) v))"
      using nth by blast
    have st: "checkLicense_start s rt v = Some l"
      using x by (auto split: option.splits)
    have "l = check_result s rt v (ledger_get w (request_index s rt urls i) v)"
      by (simp add: check_result_def st)
    then show ?thesis
      using i by blast
  next
    case late
    then have "(v, Inr (ms, out)) \<in> set ds"
      by (simp add: pending_mem)
    then obtain i where i: "i < length urls" "urls ! i = v"
      and x: "Inr (ms, out) = (case checkLicense_start s rt v of
                      Some l \<Rightarrow> Inl l
                    | None \<Rightarrow> Inr (ledger_get w (request_index s rt urls i) v))"
      using nth by blast
    have st: "checkLicense_start s rt v = None"
      and g: "ledger_get w (request_index s rt urls i) v = (ms, out)"
      using x by (auto split: option.splits)
    have "l = check_result s rt v (ledger_get w (request_index s rt urls i) v)"
      using late(2) by (simp add: check_result_def st g)
    then show ?thesis
      using i by blast
  qed
qed

subsection \<open>The selection, for any answer\<close>

lemma find_ai_license_dropWhile:
  "find_ai_license items =
     (case dropWhile (\<lambda>i. case i of JNull \<Rightarrow> False
                                  | JObject r \<Rightarrow> rec_license_type r \<noteq> Some ''ai-license'') items of
        JObject r # _ \<Rightarrow> Inr (Some r)
      | JNull # _ \<Rightarrow> Inl (property_of_null ''license_type'')
      | [] \<Rightarrow> Inr None)"
  by (induction items rule: find_ai_license.induct) simp_all

lemma dropWhile_all_records:
  "dropWhile (\<lambda>i. case i of JNull \<Rightarrow> False
                          | JObject r \<Rightarrow> rec_license_type r \<noteq> Some ''ai-license'') items = []
   \<Longrightarrow> items = [] \<or> (\<exists>r0 rest. items = JObject r0 # rest)"
  by (cases items rule: find_ai_license.cases) (simp_all split: if_splits)

lemma select_license_selection:
  assumes "items \<noteq> []"
  shows "select_license items =
           (case spec_selection items of
              Selected r \<Rightarrow> Inr r
            | Unreadable \<Rightarrow> Inl (property_of_null ''license_type'')
            | NoRecords \<Rightarrow> Inl (property_of_undefined ''opt_in_status''))"
proof (cases "dropWhile (\<lambda>i. case i of JNull \<Rightarrow> False
                          | JObject r \<Rightarrow> rec_license_type r \<noteq> Some ''ai-license'') items")
  case Nil
  then obtain r0 rest where "items = JObject r0 # rest"
    using assms dropWhile_all_records by blast
  then show ?thesis
    using Nil assms
    by (simp add: select_license_def spec_selection_def find_ai_license_dropWhile)
next
  case (Cons i rest)
  then show ?thesis
    using assms
    by (cases i) (simp_all add: select_license_def spec_selection_def find_ai_license_dropWhile)
qed

lemma spec_selection_records:
  "spec_selection (map JObject recs) =
     (case spec_select recs of None \<Rightarrow> NoRecords | Some r \<Rightarrow> Selected r)"
proof -
  define dw where "dw = dropWhile (\<lambda>r. rec_license_type r \<noteq> Some ''ai-license'') recs"
  have d: "dropWhile (\<lambda>i. case i of JNull \<Rightarrow> False
                          | JObject r \<Rightarrow> rec_license_type r \<noteq> Some ''ai-license'') (map JObject recs) =
        map JObject dw"
    unfolding dw_def by (induction recs) simp_all
  have f: "find (\<lambda>r. rec_license_type r = Some ''ai-license'') recs =
        (case dw of [] \<Rightarrow> None | r # _ \<Rightarrow> Some r)"
    unfolding dw_def by (induction recs) simp_all
  show ?thesis
  proof (cases recs)
    case Nil
    then show ?thesis
      by (simp add: spec_selection_def spec_select_def)
  next
    case (Cons r0 rest)
    have ne: "recs \<noteq> []"
      using Cons by simp
    have hd: "(case map JObject recs of JObject r0 # _ \<Rightarrow> Selected r0 | _ \<Rightarrow> Unreadable) = Selected r0"
      using Cons by simp
    have sel: "(case recs of [] \<Rightarrow> None | r0 # _ \<Rightarrow> Some r0) = Some r0"
      using Cons by simp
    show ?thesis
      unfolding spec_selection_def spec_select_def d f
      by (cases dw) (simp_all add: ne hd sel)
  qed
qed

lemma resume_unreadable:
  assumes "licenseArray_of d \<noteq> []" and "select_license (licenseArray_of d) = Inl e"
  shows "checkLicense_resume s now u (Inr d) = (failed_license u e, count_error s)"
  using assms by (simp add: checkLicense_resume_def checkLicense_try_def Let_def)

lemma licenseArray_of_empty: "licenseArray_of d = [] \<longleftrightarrow> d = DArray []"
  by (cases d) (simp_all add: licenseArray_of_def)

lemma non_erroring_lookup:
  assumes "checkLicense_start s rt u = None"
      and "checkLicense w s rt u = (l, s', rt')"
      and "error l = None"
      and "snd (ledger_get w (length (sent rt)) u) \<noteq> Inr (DArray [])"
  obtains ms d r where "ledger_get w (length (sent rt)) u = (ms, Inr d)"
    and "select_license (licenseArray_of d) = Inr r"
proof -
  obtain ms out where g: "ledger_get w (length (sent rt)) u = (ms, out)"
    by (cases "ledger_get w (length (sent rt)) u")
  show ?thesis
  proof (cases out)
    case (Inl e)
    then have "error l \<noteq> None"
      using assms(2) by (auto simp: checkLicense_issued [OF assms(1) g] resume_failure failed_license_def)
    then show ?thesis
      using assms(3) by simp
  next
    case (Inr d)
    then have ne: "licenseArray_of d \<noteq> []"
      using assms(4) g by (simp add: licenseArray_of_empty)
    show ?thesis
    proof (cases "select_license (licenseArray_of d)")
      case (Inl e)
      then have "error l \<noteq> None"
        using assms(2) Inr
        by (auto simp: checkLicense_issued [OF assms(1) g] resume_unreadable [OF ne Inl] failed_license_def)
      then show ?thesis
        using assms(3) by simp
    next
      case (Inr r)
      then show ?thesis
        using that g \<open>out = Inr d\<close> by simp
    qed
  qed
qed

subsection \<open>The concrete inputs, evaluated\<close>

lemma ex_start: "checkLicense_start ex_service ex_runtime ex_url = None"
  by (simp add: checkLicense_start_def ex_service_def new_LicenseService_def ex_config_def)

lemma ex_select: "select_license [JObject ex_other_record, JObject ex_record] = Inr ex_record"
  by (simp add: select_license_def ex_other_record_def ex_record_def)

lemma ex_license:
  "license_of_record ex_url ex_record =
     \<lparr>url = ex_url, license_found = True, action = Allow, distribution = None,
      price = Some 2, payto = Some ''wallet'', license_version_id = Some 7,
      license_sig = None, license_type = Some ''ai-license'', error = None\<rparr>"
  by (simp add: license_of_record_def ex_record_def)

lemma ex_checked_value:
  "ex_checked =
     (license_of_record ex_url ex_record,
      \<lparr>config = ex_config, tokenEncoder = None,
       licenseCache = [ex_url \<mapsto> \<lparr>license = license_of_record ex_url ex_record, expires = 301020\<rparr>],
       sessionSummary =
         \<lparr>total_urls = 1, licensed_content = 1, unlicensed_content = 0, denied_content = 0,
          total_tokens = Finite 0, tracking_enabled = True, errors = 0\<rparr>\<rparr>,
      \<lparr>clock = 1020, sent = [LedgerGet ex_url]\<rparr>)"
proof -
  have g: "ledger_get ex_world (length (sent ex_runtime)) ex_url =
             (20, Inr (DArray [JObject ex_other_record, JObject ex_record]))"
    by (simp add: ex_world_def)
  have s: "select_license (licenseArray_of (DArray [JObject ex_other_record, JObject ex_record])) = Inr ex_record"
    by (simp add: licenseArray_of_def ex_select)
  show ?thesis
    unfolding ex_checked_def checkLicense_issued[OF ex_start g] resume_selected[OF s]
    by (simp add: ex_license count_license_def ex_service_def new_LicenseService_def new_summary_def
        ex_config_def ex_runtime_def)
qed

lemma ex_unanswered_value:
  "ex_unanswered = (unknown_license ex_url, ex_service, \<lparr>clock = 1020, sent = [LedgerGet ex_url]\<rparr>)"
proof -
  have g: "ledger_get ex_empty_world (length (sent ex_runtime)) ex_url = (20, Inr (DArray []))"
    by (simp add: ex_empty_world_def)
  show ?thesis
    unfolding ex_unanswered_def checkLicense_issued[OF ex_start g] resume_empty
    by (simp add: ex_runtime_def)
qed

section \<open>The claims\<close>

text \<open>
  C1 (as amended). When the first fetch answers 402 with an x402 challenge, the
  acquisition succeeds and the second fetch returns a response, \<open>licensedFetchText\<close>
  has made exactly two content fetches (the URL, then the licensed URL) and its result has
  \<open>payment_attempted\<close> set, the second response's status, content type and body cut
  to the character budget, whatever that status is, and the acquisition metadata. Its
  \<open>final_url\<close> is the URL the second response reports, and the licensed URL only when
  the response reports none.
\<close>

theorem paid_fetch_second_response:
  assumes "http_get w (length (sent rt)) u = (ms1, Inr first)"
      and "resp_status first = 402"
      and "isX402 first"
      and "\<not> key_missing (apiKey (config ledger))"
      and "ledger_acquire w (Suc (length (sent rt))) (acquire_params u opts first) = (ms2, Inr acq)"
      and "http_get w (Suc (Suc (length (sent rt)))) (licensed_url acq) = (ms3, Inr second)"
      and "licensedFetchText w ledger rt u opts = (res, rt')"
  shows "content_fetches (sent rt') = content_fetches (sent rt) @ [u, licensed_url acq]
         \<and> payment_attempted res
         \<and> final_url res = (if resp_url second = [] then licensed_url acq else resp_url second)
         \<and> status res = resp_status second
         \<and> content_type res = headers second ''content-type''
         \<and> content_text res = Some (slice0 (text_of second) (maxChars_of opts))
         \<and> (0 \<le> maxChars_of opts \<longrightarrow>
               content_text res = Some (take (nat (maxChars_of opts)) (text_of second)))
         \<and> acquire res = Some
               \<lparr>m_licensed_url = licensed_url acq, m_cost = acq_cost acq,
                m_currency = acq_currency acq, m_expires_at = acq_expires_at acq,
                m_license_version_id = acq_license_version_id acq,
                m_license_sig = acq_license_sig acq\<rparr>"
  using assms(7)
  unfolding licensedFetchText_paid_path[OF assms(1-6)]
  by (auto simp: content_fetches_append slice0_take)

theorem paid_fetch_second_response_witness:
  "resp_status ex_challenge = 402 \<and> isX402 ex_challenge
   \<and> content_fetches (sent (snd (licensedFetchText ex_world ex_service ex_runtime ex_url ex_opts)))
       = [ex_url, ''https://site.example/paid'']
   \<and> status (fst (licensedFetchText ex_world ex_service ex_runtime ex_url ex_opts)) = 200
   \<and> content_text (fst (licensedFetchText ex_world ex_service ex_runtime ex_url ex_opts)) = Some ''hel''
   \<and> payment_attempted (fst (licensedFetchText ex_world ex_service ex_runtime ex_url ex_opts))"
proof -
  have h1: "http_get ex_world (length (sent ex_runtime)) ex_url = (40, Inr ex_challenge)"
    by (simp add: ex_world_def ex_url_def)
  have h2: "resp_status ex_challenge = 402"
    by (simp add: ex_challenge_def)
  have h4: "\<not> key_missing (apiKey (config ex_service))"
    by (simp add: key_missing_def ex_service_def new_LicenseService_def ex_config_def)
  have h5: "ledger_acquire ex_world (Suc (length (sent ex_runtime))) (acquire_params ex_url ex_opts ex_challenge)
              = (30, Inr ex_acquired)"
    by (simp add: ex_world_def)
  have h6: "http_get ex_world (Suc (Suc (length (sent ex_runtime)))) (licensed_url ex_acquired) = (40, Inr ex_page)"
    by (simp add: ex_world_def ex_acquired_def)
  show ?thesis
    using paid_fetch_second_response [OF h1 h2 ex_isX402 h4 h5 h6 surjective_pairing] h2 ex_isX402
    by (simp add: ex_runtime_def ex_page_def ex_acquired_def ex_opts_def maxChars_of_def
        slice0_def text_of_def)
qed

text \<open>
  The claim as first stated has \<open>final_url\<close> equal to the licensed URL, and the second
  response's data and the metadata whenever the acquisition succeeds. The site of
  \<open>ex_world\<close> serves the licensed URL from another host, as a redirect does, and
  \<open>final_url\<close> is that host's URL. In \<open>ex_flaky_world\<close> the acquisition succeeds and
  the second fetch is aborted: the result has the first response's URL and status and no
  metadata.
\<close>

theorem paid_fetch_final_url_counterexample:
  "resp_status ex_challenge = 402 \<and> isX402 ex_challenge
   \<and> acquire (fst (licensedFetchText ex_world ex_service ex_runtime ex_url ex_opts)) =
       Some \<lparr>m_licensed_url = ''https://site.example/paid'', m_cost = 1, m_currency = ''USD'',
             m_expires_at = ''2026-01-01T00:00:00Z'', m_license_version_id = 7,
             m_license_sig = ''sig''\<rparr>
   \<and> final_url (fst (licensedFetchText ex_world ex_service ex_runtime ex_url ex_opts)) \<noteq>
       ''https://site.example/paid''
   \<and> acquireLicenseToken ex_flaky_world ex_service \<lparr>clock = 1040, sent = [ContentFetch ex_url]\<rparr>
         (acquire_params ex_url ex_opts ex_challenge) =
       (Inr ex_acquired,
        \<lparr>clock = 1070, sent = [ContentFetch ex_url,
                               LedgerAcquire (acquire_params ex_url ex_opts ex_challenge)]\<rparr>)
   \<and> final_url (fst (licensedFetchText ex_flaky_world ex_service ex_runtime ex_url ex_opts)) = ex_url
   \<and> status (fst (licensedFetchText ex_flaky_world ex_service ex_runtime ex_url ex_opts)) = 402
   \<and> acquire (fst (licensedFetchText ex_flaky_world ex_service ex_runtime ex_url ex_opts)) = None"
proof -
  have k: "\<not> key_missing (apiKey (config ex_service))"
    by (simp add: key_missing_def ex_service_def new_LicenseService_def ex_config_def)
  have a: "ledger_acquire ex_world n b = (30, Inr ex_acquired)"
          "ledger_acquire ex_flaky_world n b = (30, Inr ex_acquired)" for n b
    by (simp_all add: ex_flaky_world_def ex_world_def)
  have f: "http_get ex_world n ex_url = (40, Inr ex_challenge)"
          "http_get ex_flaky_world n ex_url = (40, Inr ex_challenge)"
          "http_get ex_world n (licensed_url ex_acquired) = (40, Inr ex_page)"
          "http_get ex_flaky_world n (licensed_url ex_acquired) =
             (12000, Inl (Error ''AbortError'' ''This operation was aborted''))" for n
    by (simp_all add: ex_flaky_world_def ex_world_def ex_url_def ex_acquired_def)
  have c: "resp_status ex_challenge = 402"
    by (simp add: ex_challenge_def)
  show ?thesis
    unfolding licensedFetchText_paid_path [OF f(1) c ex_isX402 k a(1) f(3)]
      licensedFetchText_paid_path [OF f(2) c ex_isX402 k a(2) f(4)]
    using c ex_isX402 k
    by (simp add: a acquireLicenseToken_def first_response_result_def)
       (simp add: ex_acquired_def ex_page_def ex_challenge_def ex_url_def)
qed

text \<open>
  C2 (as amended). A \<open>checkLicense\<close> call that sends a lookup, returns without an
  error, and whose lookup was not answered with an empty array, adds one to
  \<open>total_urls\<close> and one to exactly one of the licensed, denied and unlicensed counters,
  chosen by \<open>license_found\<close> and \<open>action\<close> of the result, and changes no other
  counter. A call that returns before the lookup (tracking disabled, or a live cache
  entry) changes no counter.
\<close>

theorem checkLicense_counts_lookup:
  assumes "checkLicense w s rt u = (l, s', rt')"
  shows "(checkLicense_start s rt u = None \<and> error l = None
          \<and> snd (ledger_get w (length (sent rt)) u) \<noteq> Inr (DArray [])
          \<longrightarrow> total_urls (sessionSummary s') = total_urls (sessionSummary s) + 1
              \<and> licensed_content (sessionSummary s') =
                    licensed_content (sessionSummary s) + (if license_found l \<and> action l \<noteq> Deny then 1 else 0)
              \<and> denied_content (sessionSummary s') =
                    denied_content (sessionSummary s) + (if license_found l \<and> action l = Deny then 1 else 0)
              \<and> unlicensed_content (sessionSummary s') =
                    unlicensed_content (sessionSummary s) + (if license_found l then 0 else 1)
              \<and> total_tokens (sessionSummary s') = total_tokens (sessionSummary s)
              \<and> errors (sessionSummary s') = errors (sessionSummary s)
              \<and> tracking_enabled (sessionSummary s') = tracking_enabled (sessionSummary s))
         \<and> (checkLicense_start s rt u \<noteq> None \<longrightarrow> sessionSummary s' = sessionSummary s)"
proof (rule conjI; rule impI)
  assume h: "checkLicense_start s rt u = None \<and> error l = None
          \<and> snd (ledger_get w (length (sent rt)) u) \<noteq> Inr (DArray [])"
  then obtain ms d r where g: "ledger_get w (length (sent rt)) u = (ms, Inr d)"
    and sel: "select_license (licenseArray_of d) = Inr r"
    using non_erroring_lookup [OF _ assms] by blast
  have l: "l = license_of_record u r"
    and s': "sessionSummary s' = count_license (license_of_record u r) (sessionSummary s)"
    using assms h g sel by (auto simp: checkLicense_issued resume_selected)
  show "total_urls (sessionSummary s') = total_urls (sessionSummary s) + 1
              \<and> licensed_content (sessionSummary s') =
                    licensed_content (sessionSummary s) + (if license_found l \<and> action l \<noteq> Deny then 1 else 0)
              \<and> denied_content (sessionSummary s') =
                    denied_content (sessionSummary s) + (if license_found l \<and> action l = Deny then 1 else 0)
              \<and> unlicensed_content (sessionSummary s') =
                    unlicensed_content (sessionSummary s) + (if license_found l then 0 else 1)
              \<and> total_tokens (sessionSummary s') = total_tokens (sessionSummary s)
              \<and> errors (sessionSummary s') = errors (sessionSummary s)
              \<and> tracking_enabled (sessionSummary s') = tracking_enabled (sessionSummary s)"
    unfolding s' l by (simp add: count_license_def Let_def)
next
  assume "checkLicense_start s rt u \<noteq> None"
  then show "sessionSummary s' = sessionSummary s"
    using assms by (auto simp: checkLicense_returned)
qed

theorem checkLicense_counts_lookup_witness:
  "checkLicense_start ex_service ex_runtime ex_url = None
   \<and> error (fst ex_checked) = None
   \<and> snd (ledger_get ex_world (length (sent ex_runtime)) ex_url) \<noteq> Inr (DArray [])
   \<and> total_urls (sessionSummary (fst (snd ex_checked))) = 1
   \<and> licensed_content (sessionSummary (fst (snd ex_checked))) = 1
   \<and> denied_content (sessionSummary (fst (snd ex_checked))) = 0
   \<and> unlicensed_content (sessionSummary (fst (snd ex_checked))) = 0
   \<and> errors (sessionSummary (fst (snd ex_checked))) = 0"
proof -
  have g: "snd (ledger_get ex_world (length (sent ex_runtime)) ex_url) \<noteq> Inr (DArray [])"
    by (simp add: ex_world_def)
  have e: "error (fst ex_checked) = None"
    by (simp add: ex_checked_value ex_license)
  have c: "checkLicense ex_world ex_service ex_runtime ex_url =
             (fst ex_checked, fst (snd ex_checked), snd (snd ex_checked))"
    unfolding ex_checked_def by (rule triple_collapse)
  show ?thesis
    using checkLicense_counts_lookup [OF c] ex_start g e
    by (simp add: ex_checked_value ex_license ex_service_def new_LicenseService_def new_summary_def)
qed

text \<open>
  The claim as first stated counts every call that does not fail. The second check of
  \<open>ex_url\<close>, made as soon as the first has returned, is answered from the cache without
  an error, and \<open>total_urls\<close> stays at one. (A first check that the ledger answers with
  an empty array returns without an error as well, and \<open>total_urls\<close> stays at zero.)
\<close>

theorem checkLicense_counts_cache_hit_counterexample:
  "enableTracking (config (fst (snd ex_checked)))
   \<and> error (fst (checkLicense ex_world (fst (snd ex_checked)) (snd (snd ex_checked)) ex_url)) = None
   \<and> total_urls (sessionSummary (fst (snd ex_checked))) = 1
   \<and> total_urls (sessionSummary
        (fst (snd (checkLicense ex_world (fst (snd ex_checked)) (snd (snd ex_checked)) ex_url)))) = 1
   \<and> error (fst ex_unanswered) = None
   \<and> total_urls (sessionSummary (fst (snd ex_unanswered))) = 0"
proof -
  have "checkLicense_start (fst (snd ex_checked)) (snd (snd ex_checked)) ex_url
          = Some (license_of_record ex_url ex_record)"
    by (simp add: ex_checked_value checkLicense_start_def ex_config_def)
  then show ?thesis
    by (simp add: checkLicense_returned ex_unanswered_value unknown_license_def)
       (simp add: ex_checked_value ex_license ex_config_def ex_service_def
          new_LicenseService_def new_summary_def)
qed

text \<open>
  C3 (as amended). For every answer to a lookup, taken as its array of items (an answer
  that is not an array is the one item of its array): with no item the result is not
  found, with action unknown. Otherwise the first item that is an \<open>ai-license\<close> record
  or is null decides. If it is a record, or if there is no such item, \<open>checkLicense\<close>
  uses the \<open>ai-license\<close> record, else the first record, and maps its opt-in field:
  \<open>opt-in\<close> to allow, \<open>opt-out\<close> to deny, anything else to unknown, with
  \<open>license_found\<close> true exactly for the first two. If it is null, the check ends as a
  failed lookup does: not found, action unknown, the error set, one more in \<open>errors\<close>,
  nothing cached or counted. On an answer made of records only this is the rule of the
  specification.
\<close>

theorem checkLicense_selects_and_maps:
  assumes "checkLicense_start s rt u = None"
      and "ledger_get w (length (sent rt)) u = (ms, Inr d)"
      and "checkLicense w s rt u = (l, s', rt')"
  shows "(\<forall>recs. licenseArray_of d = map JObject recs \<longrightarrow>
            spec_selection (licenseArray_of d) =
              (case spec_select recs of None \<Rightarrow> NoRecords | Some r \<Rightarrow> Selected r))
         \<and> (spec_selection (licenseArray_of d) = NoRecords \<longrightarrow>
               licenseArray_of d = [] \<and> \<not> license_found l \<and> action l = Unknown \<and> error l = None)
         \<and> (\<forall>r. spec_selection (licenseArray_of d) = Selected r \<longrightarrow>
               action l = spec_action (opt_in_status r)
               \<and> license_found l = spec_found (opt_in_status r)
               \<and> url l = u \<and> price l = rate_per_token r \<and> payto l = wallet_id r
               \<and> license_version_id l = rec_id r \<and> license_type l = rec_license_type r
               \<and> error l = None)
         \<and> (spec_selection (licenseArray_of d) = Unreadable \<longrightarrow>
               \<not> license_found l \<and> action l = Unknown \<and> error l \<noteq> None
               \<and> s' = s\<lparr>sessionSummary := (sessionSummary s)\<lparr>errors := errors (sessionSummary s) + 1\<rparr>\<rparr>)"
proof (cases "licenseArray_of d = []")
  case True
  then have "d = DArray []"
    by (simp add: licenseArray_of_empty)
  then show ?thesis
    using assms True
    by (auto simp: checkLicense_issued resume_empty unknown_license_def spec_selection_def
        spec_select_def)
next
  case False
  note sel = select_license_selection [OF False]
  have rec: "spec_selection (licenseArray_of d) =
              (case spec_select recs of None \<Rightarrow> NoRecords | Some r \<Rightarrow> Selected r)"
    if "licenseArray_of d = map JObject recs" for recs
    using that spec_selection_records [of recs] by simp
  have nr: "spec_selection (licenseArray_of d) \<noteq> NoRecords"
    using False by (simp add: spec_selection_def split: list.splits json_item.splits)
  have res: "checkLicense_resume s (clock rt + ms) u (Inr d) = (l, s')"
    using assms(3) by (simp add: checkLicense_issued [OF assms(1,2)] prod_eq_iff)
  have picked: "action l = spec_action (opt_in_status r)
               \<and> license_found l = spec_found (opt_in_status r)
               \<and> url l = u \<and> price l = rate_per_token r \<and> payto l = wallet_id r
               \<and> license_version_id l = rec_id r \<and> license_type l = rec_license_type r
               \<and> error l = None"
    if "spec_selection (licenseArray_of d) = Selected r" for r
  proof -
    have "select_license (licenseArray_of d) = Inr r"
      using sel that by simp
    then have "l = license_of_record u r"
      using res by (simp add: resume_selected)
    then show ?thesis
      by (simp add: license_of_record_def spec_action_def spec_found_def)
  qed
  have unread: "\<not> license_found l \<and> action l = Unknown \<and> error l \<noteq> None
               \<and> s' = s\<lparr>sessionSummary := (sessionSummary s)\<lparr>errors := errors (sessionSummary s) + 1\<rparr>\<rparr>"
    if "spec_selection (licenseArray_of d) = Unreadable"
  proof -
    have "select_license (licenseArray_of d) = Inl (property_of_null ''license_type'')"
      using sel that by simp
    then have "l = failed_license u (property_of_null ''license_type'')" "s' = count_error s"
      using res by (simp_all add: resume_unreadable [OF False])
    then show ?thesis
      by (simp add: failed_license_def unknown_license_def count_error_def)
  qed
  show ?thesis
    using rec nr picked unread by blast
qed

theorem checkLicense_selects_and_maps_witness:
  "spec_select [ex_other_record, ex_record] = Some ex_record
   \<and> spec_selection [JObject ex_other_record, JObject ex_record] = Selected ex_record
   \<and> action (fst (checkLicense ex_world ex_service ex_runtime ex_url)) = Allow
   \<and> license_found (fst (checkLicense ex_world ex_service ex_runtime ex_url))
   \<and> license_version_id (fst (checkLicense ex_world ex_service ex_runtime ex_url)) = Some 7"
proof -
  have g: "ledger_get ex_world (length (sent ex_runtime)) ex_url =
             (20, Inr (DArray [JObject ex_other_record, JObject ex_record]))"
    by (simp add: ex_world_def)
  have sp: "spec_select [ex_other_record, ex_record] = Some ex_record"
    by (simp add: spec_select_def ex_other_record_def ex_record_def)
  have a: "licenseArray_of (DArray [JObject ex_other_record, JObject ex_record]) =
             [JObject ex_other_record, JObject ex_record]"
    by (simp add: licenseArray_of_def)
  have sl: "spec_selection [JObject ex_other_record, JObject ex_record] = Selected ex_record"
    by (simp add: spec_selection_def ex_other_record_def ex_record_def)
  have "\<forall>r. spec_selection [JObject ex_other_record, JObject ex_record] = Selected r \<longrightarrow>
          action (fst (checkLicense ex_world ex_service ex_runtime ex_url)) = spec_action (opt_in_status r)
          \<and> license_found (fst (checkLicense ex_world ex_service ex_runtime ex_url)) = spec_found (opt_in_status r)
          \<and> license_version_id (fst (checkLicense ex_world ex_service ex_runtime ex_url)) = rec_id r"
    using checkLicense_selects_and_maps [OF ex_start g triple_collapse] unfolding a by blast
  then have "action (fst (checkLicense ex_world ex_service ex_runtime ex_url)) = spec_action (opt_in_status ex_record)
          \<and> license_found (fst (checkLicense ex_world ex_service ex_runtime ex_url)) = spec_found (opt_in_status ex_record)
          \<and> license_version_id (fst (checkLicense ex_world ex_service ex_runtime ex_url)) = rec_id ex_record"
    using sl by blast
  then show ?thesis
    using sp sl by (simp add: spec_action_def spec_found_def ex_record_def)
qed

text \<open>
  The claim as first stated takes the first record whenever no \<open>ai-license\<close> record is
  present. The ledger of \<open>ex_null_world\<close> answers with a record of another type, whose
  opt-in field is \<open>opt-out\<close>, and a null: the search for an \<open>ai-license\<close> record
  throws at the null, and the result is not the first record's deny but the degraded one.
\<close>

theorem checkLicense_null_item_counterexample:
  "find (\<lambda>r. rec_license_type r = Some ''ai-license'') [ex_other_record] = None
   \<and> opt_in_status ex_other_record = Some ''opt-out''
   \<and> action (fst (checkLicense ex_null_world ex_service ex_runtime ex_url)) = Unknown
   \<and> \<not> license_found (fst (checkLicense ex_null_world ex_service ex_runtime ex_url))
   \<and> error (fst (checkLicense ex_null_world ex_service ex_runtime ex_url)) =
       Some (error_message (property_of_null ''license_type''))
   \<and> errors (sessionSummary (fst (snd (checkLicense ex_null_world ex_service ex_runtime ex_url)))) = 1"
proof -
  have g: "ledger_get ex_null_world (length (sent ex_runtime)) ex_url =
             (20, Inr (DArray [JObject ex_other_record, JNull]))"
    by (simp add: ex_null_world_def)
  have ne: "licenseArray_of (DArray [JObject ex_other_record, JNull]) \<noteq> []"
    by (simp add: licenseArray_of_def)
  have sel: "select_license (licenseArray_of (DArray [JObject ex_other_record, JNull])) =
               Inl (property_of_null ''license_type'')"
    by (simp add: licenseArray_of_def select_license_def ex_other_record_def)
  show ?thesis
    unfolding checkLicense_issued [OF ex_start g] resume_unreadable [OF ne sel]
    by (simp add: failed_license_def unknown_license_def count_error_def ex_other_record_def
        ex_service_def new_LicenseService_def new_summary_def)
qed

text \<open>
  C4. When the lookup request fails, \<open>checkLicense\<close> returns (it has no way to throw:
  the failure is a value here) the degraded result with the error's message, adds one to
  the \<open>errors\<close> counter and leaves the rest of the service, the cache included, as it
  was.
\<close>

theorem checkLicense_lookup_failure:
  assumes "checkLicense_start s rt u = None"
      and "ledger_get w (length (sent rt)) u = (ms, Inl e)"
      and "checkLicense w s rt u = (l, s', rt')"
  shows "l = \<lparr>url = u, license_found = False, action = Unknown, distribution = None,
              price = None, payto = None, license_version_id = None, license_sig = None,
              license_type = None, error = Some (error_message e)\<rparr>
         \<and> errors (sessionSummary s') = errors (sessionSummary s) + 1
         \<and> licenseCache s' = licenseCache s
         \<and> s' = s\<lparr>sessionSummary := (sessionSummary s)\<lparr>errors := errors (sessionSummary s) + 1\<rparr>\<rparr>
         \<and> sent rt' = sent rt @ [LedgerGet u]"
  using assms
  by (auto simp: checkLicense_issued resume_failure failed_license_def unknown_license_def count_error_def)

theorem checkLicense_lookup_failure_witness:
  "checkLicense_start ex_service ex_runtime ex_url = None
   \<and> error (fst (checkLicense ex_down_world ex_service ex_runtime ex_url)) = Some ''timeout of 5000ms exceeded''
   \<and> \<not> license_found (fst (checkLicense ex_down_world ex_service ex_runtime ex_url))
   \<and> action (fst (checkLicense ex_down_world ex_service ex_runtime ex_url)) = Unknown
   \<and> errors (sessionSummary (fst (snd (checkLicense ex_down_world ex_service ex_runtime ex_url)))) = 1
   \<and> licenseCache (fst (snd (checkLicense ex_down_world ex_service ex_runtime ex_url))) = Map.empty"
proof -
  have g: "ledger_get ex_down_world (length (sent ex_runtime)) ex_url =
             (5000, Inl (Error ''AxiosError'' ''timeout of 5000ms exceeded''))"
    by (simp add: ex_down_world_def)
  show ?thesis
    using checkLicense_lookup_failure [OF ex_start g triple_collapse] ex_start
    by (simp add: ex_service_def new_LicenseService_def new_summary_def)
qed

text \<open>
  C5. In every state a service can reach, the license \<open>checkLicense\<close> returns, and every
  license in the map \<open>checkLicenseBatch\<close> returns, has one of the three actions and,
  when it was not found, the action unknown.
\<close>

theorem returned_licenses_ok:
  assumes "reachable s"
  shows "license_ok (fst (checkLicense w s rt u))
         \<and> (\<forall>v l. fst (checkLicenseBatch w s rt urls) v = Some l \<longrightarrow> license_ok l)"
  using checkLicense_ok[OF reachable_cache_ok[OF assms]] batch_ok[OF reachable_cache_ok[OF assms]]
  by (simp add: all_ok_def)

theorem returned_licenses_ok_witness:
  "reachable (fst (snd ex_checked))
   \<and> license_ok (fst (checkLicense ex_world (fst (snd ex_checked)) (snd (snd ex_checked)) ex_url))
   \<and> license_ok (fst ex_unanswered)
   \<and> fst (checkLicenseBatch ex_down_world ex_service ex_runtime [ex_url]) ex_url
       = Some (failed_license ex_url (Error ''AxiosError'' ''timeout of 5000ms exceeded''))
   \<and> license_ok (failed_license ex_url (Error ''AxiosError'' ''timeout of 5000ms exceeded''))"
proof -
  have r0: "reachable ex_service"
    unfolding ex_service_def by (rule reachable.constructed)
  have r1: "reachable (fst (snd ex_checked))"
    unfolding ex_checked_def using r0 by (rule reachable.checked)
  have b: "fst (checkLicenseBatch ex_down_world ex_service ex_runtime [ex_url]) ex_url
       = Some (failed_license ex_url (Error ''AxiosError'' ''timeout of 5000ms exceeded''))"
    by (simp add: checkLicenseBatch_def ex_start ex_down_world_def resume_failure)
  show ?thesis
    using returned_licenses_ok [OF r1, of ex_world "snd (snd ex_checked)" ex_url "[]"]
      returned_licenses_ok [OF r0, of ex_empty_world ex_runtime ex_url "[]"]
      returned_licenses_ok [OF r0, of ex_down_world ex_runtime ex_url "[ex_url]"]
      r1 b
    by (simp add: ex_unanswered_def)
qed

text \<open>
  C6 (as amended). With tracking and caching enabled, a check that sends a lookup,
  returns without an error, and whose lookup was not answered with an empty array, writes
  the cache entry of its URL, expiring the configured TTL (in seconds) after the answer
  arrived. A second check of that URL before the expiry sends
  no request and returns the same license, leaving the service as it was; a second check
  at or after the expiry sends a new lookup. And any check either leaves the cache as it
  was, or caching is enabled, the check returned without an error and the one entry it
  wrote expires the configured TTL after its answer.
\<close>

theorem cache_round_trip:
  assumes "enableCache (config s)"
      and "checkLicense_start s rt u = None"
      and "checkLicense w s rt u = (l1, s1, rt1)"
      and "error l1 = None"
      and "snd (ledger_get w (length (sent rt)) u) \<noteq> Inr (DArray [])"
  shows "licenseCache s1 u = Some \<lparr>license = l1, expires = int (clock rt1) + cacheTTL (config s) * 1000\<rparr>
         \<and> sent rt1 = sent rt @ [LedgerGet u]
         \<and> (int (clock rt2) < int (clock rt1) + cacheTTL (config s) * 1000
              \<longrightarrow> checkLicense w' s1 rt2 u = (l1, s1, rt2))
         \<and> (int (clock rt1) + cacheTTL (config s) * 1000 \<le> int (clock rt2)
              \<longrightarrow> sent (snd (snd (checkLicense w' s1 rt2 u))) = sent rt2 @ [LedgerGet u])
         \<and> (licenseCache (fst (snd (checkLicense w' s' rt' v))) = licenseCache s'
              \<or> (enableCache (config s')
                  \<and> error (fst (checkLicense w' s' rt' v)) = None
                  \<and> licenseCache (fst (snd (checkLicense w' s' rt' v))) =
                       (licenseCache s')(v \<mapsto> \<lparr>license = fst (checkLicense w' s' rt' v),
                          expires = int (clock (snd (snd (checkLicense w' s' rt' v))))
                                    + cacheTTL (config s') * 1000\<rparr>)))"
proof -
  obtain ms d r where g: "ledger_get w (length (sent rt)) u = (ms, Inr d)"
    and sel: "select_license (licenseArray_of d) = Inr r"
    using non_erroring_lookup [OF assms(2-5)] by blast
  have tr: "enableTracking (config s)"
    using assms(2) by (auto simp: checkLicense_start_def split: if_splits)
  have first: "l1 = license_of_record u r"
    "s1 = s\<lparr>licenseCache := (licenseCache s)
                      (u \<mapsto> \<lparr>license = license_of_record u r,
                             expires = int (clock rt + ms) + cacheTTL (config s) * 1000\<rparr>),
             sessionSummary := count_license (license_of_record u r) (sessionSummary s)\<rparr>"
    "rt1 = \<lparr>clock = clock rt + ms, sent = sent rt @ [LedgerGet u]\<rparr>"
    using assms(1-3) g sel by (auto simp: checkLicense_issued resume_selected)
  have entry: "licenseCache s1 u = Some \<lparr>license = l1, expires = int (clock rt1) + cacheTTL (config s) * 1000\<rparr>"
    by (simp add: first)
  have cfg: "config s1 = config s"
    by (simp add: first)
  have hit: "checkLicense_start s1 rt2 u = Some l1"
    if "int (clock rt2) < int (clock rt1) + cacheTTL (config s) * 1000"
    using that tr assms(1) entry cfg by (simp add: checkLicense_start_def)
  have miss: "checkLicense_start s1 rt2 u = None"
    if "int (clock rt1) + cacheTTL (config s) * 1000 \<le> int (clock rt2)"
    using that tr assms(1) entry cfg by (simp add: checkLicense_start_def)
  have again: "sent (snd (snd (checkLicense w' s1 rt2 u))) = sent rt2 @ [LedgerGet u]"
    if "int (clock rt1) + cacheTTL (config s) * 1000 \<le> int (clock rt2)"
  proof -
    obtain ms' outcome' where g: "ledger_get w' (length (sent rt2)) u = (ms', outcome')"
      by (cases "ledger_get w' (length (sent rt2)) u")
    show ?thesis
      by (simp add: checkLicense_issued[OF miss[OF that] g])
  qed
  show ?thesis
    using entry first(3) hit again checkLicense_cache_write[of w' s' rt' v]
    by (simp add: checkLicense_returned)
qed

theorem cache_round_trip_witness:
  "cacheTTL (config ex_service) = 300
   \<and> error (fst ex_checked) = None
   \<and> snd (ledger_get ex_world (length (sent ex_runtime)) ex_url) \<noteq> Inr (DArray [])
   \<and> sent (snd (snd ex_checked)) = [LedgerGet ex_url]
   \<and> checkLicense ex_down_world (fst (snd ex_checked)) \<lparr>clock = 301019, sent = [LedgerGet ex_url]\<rparr> ex_url
       = (fst ex_checked, fst (snd ex_checked), \<lparr>clock = 301019, sent = [LedgerGet ex_url]\<rparr>)
   \<and> sent (snd (snd (checkLicense ex_down_world (fst (snd ex_checked))
                        \<lparr>clock = 301020, sent = [LedgerGet ex_url]\<rparr> ex_url)))
       = [LedgerGet ex_url, LedgerGet ex_url]"
proof -
  have e: "enableCache (config ex_service)"
    by (simp add: ex_service_def new_LicenseService_def ex_config_def)
  have g: "snd (ledger_get ex_world (length (sent ex_runtime)) ex_url) \<noteq> Inr (DArray [])"
    by (simp add: ex_world_def)
  have ok: "error (fst ex_checked) = None"
    by (simp add: ex_checked_value ex_license)
  have c: "checkLicense ex_world ex_service ex_runtime ex_url =
             (fst ex_checked, fst (snd ex_checked), snd (snd ex_checked))"
    unfolding ex_checked_def by (rule triple_collapse)
  have t: "cacheTTL (config ex_service) = 300"
    by (simp add: ex_service_def new_LicenseService_def ex_config_def)
  have k: "clock (snd (snd ex_checked)) = 1020"
    by (simp add: ex_checked_value)
  show ?thesis
    using cache_round_trip [OF e ex_start c ok g,
        of "\<lparr>clock = 301019, sent = [LedgerGet ex_url]\<rparr>" ex_down_world ex_service ex_runtime ex_url]
      cache_round_trip [OF e ex_start c ok g,
        of "\<lparr>clock = 301020, sent = [LedgerGet ex_url]\<rparr>" ex_down_world ex_service ex_runtime ex_url]
    using ok g by (simp add: t k ex_runtime_def)
qed

text \<open>
  The claim as first stated holds the round trip for every first check that succeeds. The
  ledger of \<open>ex_empty_world\<close> answers with an empty array: the first check returns without
  an error and writes no entry, and the second check, made as soon as it has returned,
  sends a second request.
\<close>

theorem cache_round_trip_empty_answer_counterexample:
  "enableTracking (config ex_service) \<and> enableCache (config ex_service)
   \<and> cacheTTL (config ex_service) = 300
   \<and> error (fst ex_unanswered) = None
   \<and> sent (snd (snd ex_unanswered)) = [LedgerGet ex_url]
   \<and> sent (snd (snd (checkLicense ex_empty_world (fst (snd ex_unanswered)) (snd (snd ex_unanswered)) ex_url)))
       = [LedgerGet ex_url, LedgerGet ex_url]"
proof -
  have st: "checkLicense_start ex_service \<lparr>clock = 1020, sent = [LedgerGet ex_url]\<rparr> ex_url = None"
    by (simp add: checkLicense_start_def ex_service_def new_LicenseService_def ex_config_def)
  have g: "ledger_get ex_empty_world (length (sent \<lparr>clock = 1020, sent = [LedgerGet ex_url]\<rparr>)) ex_url
             = (20, Inr (DArray []))"
    by (simp add: ex_empty_world_def)
  show ?thesis
    by (simp add: ex_unanswered_value checkLicense_issued [OF st g] unknown_license_def)
       (simp add: ex_service_def new_LicenseService_def ex_config_def)
qed

text \<open>
  C7. The map \<open>checkLicenseBatch\<close> returns has exactly the input URLs as its keys,
  whatever the environment answers to each lookup. Each entry is the result of one of
  the batch's own checks of that URL: the license a check of that URL alone returns,
  started on the same service at the same time, when its lookup gets the answer the
  environment gives to the request the batch sent for it. So no answer to another URL's
  lookup, a failure included, changes an entry; and when the URLs are distinct the entry
  of each is the result of its one check. One lookup request has gone out for each input
  URL, in input order, that was not answered before its request (tracking disabled, or a
  live cache entry); and for the empty list the result is the empty map, with the
  service, the clock and the request log untouched.
\<close>

theorem checkLicenseBatch_results:
  "dom (fst (checkLicenseBatch w s rt urls)) = set urls
   \<and> (\<forall>v l. fst (checkLicenseBatch w s rt urls) v = Some l \<longrightarrow>
         (\<exists>i<length urls. urls ! i = v
            \<and> l = check_result s rt v (ledger_get w (request_index s rt urls i) v)))
   \<and> (distinct urls \<longrightarrow>
         (\<forall>i<length urls.
            fst (checkLicenseBatch w s rt urls) (urls ! i) =
              Some (check_result s rt (urls ! i)
                      (ledger_get w (request_index s rt urls i) (urls ! i)))))
   \<and> (\<forall>u. fst (checkLicense w s rt u) = check_result s rt u (ledger_get w (length (sent rt)) u))
   \<and> checkLicenseBatch w s rt [] = (Map.empty, s, rt)
   \<and> sent (snd (snd (checkLicenseBatch w s rt urls))) =
       sent rt @ map LedgerGet (filter (\<lambda>u. checkLicense_start s rt u = None) urls)"
proof -
  note kl = batch_keys_and_requests [of w s rt urls]
  have own: "\<exists>i<length urls. urls ! i = v
            \<and> l = check_result s rt v (ledger_get w (request_index s rt urls i) v)"
    if "fst (checkLicenseBatch w s rt urls) v = Some l" for v l
    using that by (rule batch_value)
  have each: "fst (checkLicenseBatch w s rt urls) (urls ! i) =
              Some (check_result s rt (urls ! i)
                      (ledger_get w (request_index s rt urls i) (urls ! i)))"
    if d: "distinct urls" and i: "i < length urls" for i
  proof -
    have "urls ! i \<in> dom (fst (checkLicenseBatch w s rt urls))"
      using kl i by simp
    then obtain l where l: "fst (checkLicenseBatch w s rt urls) (urls ! i) = Some l"
      by blast
    then obtain j where j: "j < length urls" "urls ! j = urls ! i"
      and v: "l = check_result s rt (urls ! i) (ledger_get w (request_index s rt urls j) (urls ! i))"
      using own by blast
    have "j = i"
      using d i j by (simp add: nth_eq_iff_index_eq)
    then show ?thesis
      using l v by simp
  qed
  show ?thesis
    using kl own each checkLicense_check_result by blast
qed

theorem checkLicenseBatch_results_witness:
  "distinct [ex_url, ex_bad_url]
   \<and> dom (fst (checkLicenseBatch ex_mixed_world ex_service ex_runtime [ex_url, ex_bad_url]))
       = {ex_url, ex_bad_url}
   \<and> fst (checkLicenseBatch ex_mixed_world ex_service ex_runtime [ex_url, ex_bad_url]) ex_url
       = Some (license_of_record ex_url ex_record)
   \<and> fst (checkLicenseBatch ex_mixed_world ex_service ex_runtime [ex_url, ex_bad_url]) ex_bad_url
       = Some (failed_license ex_bad_url (Error ''AxiosError'' ''timeout of 10ms exceeded''))
   \<and> sent (snd (snd (checkLicenseBatch ex_mixed_world ex_service ex_runtime [ex_url, ex_bad_url])))
       = [LedgerGet ex_url, LedgerGet ex_bad_url]"
proof -
  have st: "checkLicense_start ex_service ex_runtime v = None" for v
    by (simp add: checkLicense_start_def ex_service_def new_LicenseService_def ex_config_def)
  have lg: "sent ex_runtime = []"
    by (simp add: ex_runtime_def)
  have ne: "ex_url \<noteq> ex_bad_url"
    by (simp add: ex_url_def ex_bad_url_def)
  have d: "distinct [ex_url, ex_bad_url]"
    using ne by simp
  have good: "check_result ex_service ex_runtime ex_url (ledger_get ex_mixed_world n ex_url)
                = license_of_record ex_url ex_record" for n
  proof -
    have "ledger_get ex_mixed_world n ex_url =
            (20, Inr (DArray [JObject ex_other_record, JObject ex_record]))"
      using ne by (simp add: ex_mixed_world_def)
    moreover have "select_license (licenseArray_of (DArray [JObject ex_other_record, JObject ex_record]))
                     = Inr ex_record"
      by (simp add: licenseArray_of_def ex_select)
    ultimately show ?thesis
      by (simp add: check_result_def st resume_selected)
  qed
  have bad: "check_result ex_service ex_runtime ex_bad_url (ledger_get ex_mixed_world n ex_bad_url)
               = failed_license ex_bad_url (Error ''AxiosError'' ''timeout of 10ms exceeded'')" for n
    by (simp add: check_result_def st ex_mixed_world_def resume_failure)
  have all: "\<forall>i<length [ex_url, ex_bad_url].
            fst (checkLicenseBatch ex_mixed_world ex_service ex_runtime [ex_url, ex_bad_url])
              ([ex_url, ex_bad_url] ! i) =
              Some (check_result ex_service ex_runtime ([ex_url, ex_bad_url] ! i)
                      (ledger_get ex_mixed_world
                         (request_index ex_service ex_runtime [ex_url, ex_bad_url] i)
                         ([ex_url, ex_bad_url] ! i)))"
    using checkLicenseBatch_results [of ex_mixed_world ex_service ex_runtime "[ex_url, ex_bad_url]"] d
    by blast
  have e0: "fst (checkLicenseBatch ex_mixed_world ex_service ex_runtime [ex_url, ex_bad_url]) ex_url
       = Some (license_of_record ex_url ex_record)"
    using all [rule_format, of 0] by (simp add: good)
  have e1: "fst (checkLicenseBatch ex_mixed_world ex_service ex_runtime [ex_url, ex_bad_url]) ex_bad_url
       = Some (failed_license ex_bad_url (Error ''AxiosError'' ''timeout of 10ms exceeded''))"
    using all [rule_format, of 1] by (simp add: bad)
  show ?thesis
    using checkLicenseBatch_results [of ex_mixed_world ex_service ex_runtime "[ex_url, ex_bad_url]"]
      d e0 e1
    by (simp add: st lg insert_commute)
qed

text \<open>
  C8 (as amended). \<open>logUsage\<close> returns false and changes nothing, the request log
  included, when tracking is disabled, the ledger key is missing or the token count is 0.
  Otherwise it posts one usage-log entry for the URL and the count. When the post
  succeeds it returns true and \<open>total_tokens\<close> has become the double-precision sum of
  its old value and the count, which is the old value plus the count whenever that sum
  has a magnitude of at most \<open>2 ^ 53\<close>. When the post fails it returns false and has
  added one to \<open>errors\<close>. Nothing else in the service changes in either case. It has no
  way to throw: a failed post is a value here.
\<close>

theorem logUsage_outcomes:
  "(\<not> enableTracking (config s) \<or> key_missing (apiKey (config s)) \<or> tokens = 0
      \<longrightarrow> logUsage w s rt u tokens l stg distr = (False, s, rt))
   \<and> (enableTracking (config s) \<and> \<not> key_missing (apiKey (config s)) \<and> tokens \<noteq> 0
      \<longrightarrow> (\<exists>entry ms outcome.
             entry = \<lparr>log_url = u, log_tokens = tokens,
                      log_license_version_id = license_version_id l,
                      log_license_sig = license_sig l, log_stage = stg,
                      log_distribution = distr, log_timestamp = clock rt\<rparr>
             \<and> ledger_log w (length (sent rt)) entry = (ms, outcome)
             \<and> sent (snd (snd (logUsage w s rt u tokens l stg distr))) = sent rt @ [LedgerUsageLog entry]
             \<and> (case outcome of
                  Inr ok \<Rightarrow>
                    fst (logUsage w s rt u tokens l stg distr) = True
                    \<and> fst (snd (logUsage w s rt u tokens l stg distr)) =
                        s\<lparr>sessionSummary := (sessionSummary s)
                            \<lparr>total_tokens := js_add (total_tokens (sessionSummary s)) tokens\<rparr>\<rparr>
                | Inl e \<Rightarrow>
                    fst (logUsage w s rt u tokens l stg distr) = False
                    \<and> fst (snd (logUsage w s rt u tokens l stg distr)) =
                        s\<lparr>sessionSummary := (sessionSummary s)
                            \<lparr>errors := errors (sessionSummary s) + 1\<rparr>\<rparr>)))
   \<and> (\<forall>a. total_tokens (sessionSummary s) = Finite a \<and> \<bar>a + tokens\<bar> \<le> 2 ^ 53
      \<longrightarrow> js_add (total_tokens (sessionSummary s)) tokens = Finite (a + tokens))"
proof -
  have "js_add (total_tokens (sessionSummary s)) tokens = Finite (a + tokens)"
    if "total_tokens (sessionSummary s) = Finite a" "\<bar>a + tokens\<bar> \<le> 2 ^ 53" for a
    using that by (simp add: js_add_exact)
  then show ?thesis
    by (auto simp: logUsage_def count_error_def Let_def split: prod.splits sum.splits)
qed

theorem logUsage_outcomes_witness:
  "logUsage ex_world ex_service ex_runtime ex_url 0 (fst ex_checked) Infer Private
     = (False, ex_service, ex_runtime)
   \<and> fst (logUsage ex_world ex_service ex_runtime ex_url 42 (fst ex_checked) Infer Private)
   \<and> total_tokens (sessionSummary (fst (snd
        (logUsage ex_world ex_service ex_runtime ex_url 42 (fst ex_checked) Infer Private)))) = Finite 42
   \<and> length (sent (snd (snd
        (logUsage ex_world ex_service ex_runtime ex_url 42 (fst ex_checked) Infer Private)))) = 1
   \<and> fst (logUsage ex_down_world ex_service ex_runtime ex_url 42 (fst ex_checked) Infer Private) = False
   \<and> errors (sessionSummary (fst (snd
        (logUsage ex_down_world ex_service ex_runtime ex_url 42 (fst ex_checked) Infer Private)))) = 1"
proof -
  have c: "enableTracking (config ex_service)" "\<not> key_missing (apiKey (config ex_service))"
    by (simp_all add: key_missing_def ex_service_def new_LicenseService_def ex_config_def)
  have w: "ledger_log ex_world n e = (10, Inr ())"
       "ledger_log ex_down_world n e = (3000, Inl (Error ''AxiosError'' ''timeout of 3000ms exceeded''))"
    for n e
    by (simp_all add: ex_world_def ex_down_world_def)
  have z: "sessionSummary ex_service = new_summary ex_config"
    by (simp add: ex_service_def new_LicenseService_def)
  have t: "total_tokens (new_summary ex_config) = Finite 0"
    by (simp add: new_summary_def)
  show ?thesis
    using logUsage_outcomes [of ex_service 0 ex_world ex_runtime ex_url "fst ex_checked" Infer Private]
      logUsage_outcomes [of ex_service 42 ex_world ex_runtime ex_url "fst ex_checked" Infer Private]
      logUsage_outcomes [of ex_service 42 ex_down_world ex_runtime ex_url "fst ex_checked" Infer Private]
    by (simp add: c w z t new_summary_def ex_runtime_def)
qed

text \<open>
  The claim as first stated adds exactly the count on every successful call. A fresh
  service that has logged \<open>2 ^ 53\<close> tokens logs one more token: the call returns true
  and \<open>total_tokens\<close> is still \<open>2 ^ 53\<close>, the double nearest to the sum.
\<close>

theorem logUsage_large_total_counterexample:
  "fst ex_logged
   \<and> total_tokens (sessionSummary (fst (snd ex_logged))) = Finite 9007199254740992
   \<and> fst (logUsage ex_world (fst (snd ex_logged)) (snd (snd ex_logged)) ex_url 1
             (unknown_license ex_url) Infer Private)
   \<and> total_tokens (sessionSummary (fst (snd
        (logUsage ex_world (fst (snd ex_logged)) (snd (snd ex_logged)) ex_url 1
             (unknown_license ex_url) Infer Private)))) = Finite 9007199254740992"
proof -
  have c: "enableTracking (config ex_service)" "\<not> key_missing (apiKey (config ex_service))"
    by (simp_all add: key_missing_def ex_service_def new_LicenseService_def ex_config_def)
  have w: "ledger_log ex_world n e = (10, Inr ())" for n e
    by (simp add: ex_world_def)
  have z: "total_tokens (sessionSummary ex_service) = Finite 0"
    by (simp add: ex_service_def new_LicenseService_def new_summary_def)
  have first: "js_add (Finite 0) 9007199254740992 = Finite 9007199254740992"
    using js_add_exact [of 0 9007199254740992] by simp
  have v: "ex_logged =
     (True,
      ex_service\<lparr>sessionSummary := (sessionSummary ex_service)\<lparr>total_tokens := Finite 9007199254740992\<rparr>\<rparr>,
      \<lparr>clock = clock ex_runtime + 10,
       sent = sent ex_runtime @
         [LedgerUsageLog \<lparr>log_url = ex_url, log_tokens = 9007199254740992,
            log_license_version_id = license_version_id (unknown_license ex_url),
            log_license_sig = license_sig (unknown_license ex_url), log_stage = Infer,
            log_distribution = Private, log_timestamp = clock ex_runtime\<rparr>]\<rparr>)"
    by (simp add: ex_logged_def logUsage_def c w z first)
  show ?thesis
    unfolding v by (simp add: logUsage_def c w js_add_2_53_1)
qed

text \<open>
  C9. \<open>estimateTokens\<close> returns 0 for empty content and never a negative number; when
  the encoder is unavailable, or its encoding of the content throws, the result is
  exactly the ceiling of a quarter of the content's length; and the result depends on the
  service only through its encoder.
\<close>

theorem estimateTokens_fallback:
  "estimateTokens s [] = 0
   \<and> 0 \<le> estimateTokens s content
   \<and> (tokenEncoder s = None \<or> (\<exists>encode e. tokenEncoder s = Some encode \<and> encode content = Inl e)
        \<longrightarrow> estimateTokens s content = \<lceil>real (length content) / 4\<rceil>)
   \<and> (tokenEncoder s' = tokenEncoder s \<longrightarrow> estimateTokens s' content = estimateTokens s content)"
  by (auto simp: estimateTokens_def ceil4_rat ceil4_real split: option.splits sum.splits)

theorem estimateTokens_fallback_witness:
  "tokenEncoder ex_service = None
   \<and> estimateTokens ex_service ''hello'' = 2
   \<and> estimateTokens (ex_service\<lparr>tokenEncoder := Some (\<lambda>c. Inl (Error ''Error'' ''encode failed''))\<rparr>) ''hello'' = 2
   \<and> estimateTokens (resetSession ex_service) ''hello'' = estimateTokens ex_service ''hello''"
  using estimateTokens_fallback [of ex_service "''hello''" "resetSession ex_service"]
    estimateTokens_fallback [of "ex_service\<lparr>tokenEncoder := Some (\<lambda>c. Inl (Error ''Error'' ''encode failed''))\<rparr>"
      "''hello''" ex_service]
  by (simp add: ex_service_def new_LicenseService_def resetSession_def)

text \<open>
  C10. When the first fetch answers 402 with an x402 challenge and the acquisition
  succeeds, but the second fetch throws, the result carries the first response: status
  402, its body cut to the character budget, both payment flags set, the error's text, and
  no acquisition metadata.
\<close>

theorem paid_fetch_second_failure:
  assumes "http_get w (length (sent rt)) u = (ms1, Inr first)"
      and "resp_status first = 402"
      and "isX402 first"
      and "\<not> key_missing (apiKey (config ledger))"
      and "ledger_acquire w (Suc (length (sent rt))) (acquire_params u opts first) = (ms2, Inr acq)"
      and "http_get w (Suc (Suc (length (sent rt)))) (licensed_url acq) = (ms3, Inl e)"
      and "licensedFetchText w ledger rt u opts = (res, rt')"
  shows "status res = 402
         \<and> content_text res = Some (slice0 (text_of first) (maxChars_of opts))
         \<and> payment_attempted res
         \<and> payment_required res
         \<and> fetch_error res = Some (error_text e)
         \<and> acquire res = None
         \<and> final_url res = (if resp_url first = [] then u else resp_url first)
         \<and> sent rt' = sent rt @ [ContentFetch u, LedgerAcquire (acquire_params u opts first),
                                  ContentFetch (licensed_url acq)]"
  using assms(7) assms(2)
  unfolding licensedFetchText_paid_path[OF assms(1-6)]
  by (auto simp: first_response_result_def)

theorem paid_fetch_second_failure_witness:
  "resp_status ex_challenge = 402 \<and> isX402 ex_challenge
   \<and> status (fst (licensedFetchText ex_flaky_world ex_service ex_runtime ex_url ex_opts)) = 402
   \<and> content_text (fst (licensedFetchText ex_flaky_world ex_service ex_runtime ex_url ex_opts)) = Some ''Pay''
   \<and> payment_attempted (fst (licensedFetchText ex_flaky_world ex_service ex_runtime ex_url ex_opts))
   \<and> payment_required (fst (licensedFetchText ex_flaky_world ex_service ex_runtime ex_url ex_opts))
   \<and> fetch_error (fst (licensedFetchText ex_flaky_world ex_service ex_runtime ex_url ex_opts))
       = Some ''This operation was aborted''
   \<and> acquire (fst (licensedFetchText ex_flaky_world ex_service ex_runtime ex_url ex_opts)) = None"
proof -
  have h1: "http_get ex_flaky_world (length (sent ex_runtime)) ex_url = (40, Inr ex_challenge)"
    by (simp add: ex_flaky_world_def ex_world_def ex_url_def)
  have h2: "resp_status ex_challenge = 402"
    by (simp add: ex_challenge_def)
  have h4: "\<not> key_missing (apiKey (config ex_service))"
    by (simp add: key_missing_def ex_service_def new_LicenseService_def ex_config_def)
  have h5: "ledger_acquire ex_flaky_world (Suc (length (sent ex_runtime)))
              (acquire_params ex_url ex_opts ex_challenge) = (30, Inr ex_acquired)"
    by (simp add: ex_flaky_world_def ex_world_def)
  have h6: "http_get ex_flaky_world (Suc (Suc (length (sent ex_runtime)))) (licensed_url ex_acquired)
              = (12000, Inl (Error ''AbortError'' ''This operation was aborted''))"
    by (simp add: ex_flaky_world_def ex_world_def ex_acquired_def)
  show ?thesis
    using paid_fetch_second_failure [OF h1 h2 ex_isX402 h4 h5 h6 surjective_pairing] h2 ex_isX402
    by (simp add: ex_opts_def maxChars_of_def slice0_def text_of_def ex_challenge_def error_text_def)
qed

end
